theory Spec2Isabelle
  imports Main
begin

section \<open>Exceptions and strings\<close>

text \<open>
  The finders of \<^verbatim>\<open>isort/finders.py\<close> are modelled as HOL functions. Every value of
  type \<open>exn\<close> stands for an instance of a subclass of Python's \<^verbatim>\<open>Exception\<close>; a
  computation that may raise returns \<open>exn + 'a\<close>, with \<open>Inl\<close> for the raised exception.
  The one value that is no Python exception is \<open>Unsupported\<close>: it marks a regular
  expression that lies outside the modelled part of \<^verbatim>\<open>re\<close>, and every property below
  that depends on a compiled pattern is stated for patterns that do not reach it.
  Strings are lists of 8-bit characters, read as the code points U+0000 to U+00FF.
\<close>

datatype exn =
    AttributeError string
  | KeyError string
  | UnboundLocalError string
  | IndexError
  | OSError string
  | ReError string
  | TypeError string
  | Unsupported string
  | Raised string

definition startswith :: "string \<Rightarrow> string \<Rightarrow> bool" where
  "startswith s p = (take (length p) s = p)"

definition endswith :: "string \<Rightarrow> string \<Rightarrow> bool" where
  "endswith s p = (length p \<le> length s \<and> drop (length s - length p) s = p)"

text \<open>\<^verbatim>\<open>sub in s\<close> on strings: \<open>sub\<close> occurs in \<open>s\<close> as a contiguous run.\<close>

fun contains :: "string \<Rightarrow> string \<Rightarrow> bool" where
  "contains [] sub = (sub = [])"
| "contains (c # cs) sub = (startswith (c # cs) sub \<or> contains cs sub)"

section \<open>Path arithmetic (posixpath)\<close>

definition sep :: char where
  "sep = CHR ''/''"

text \<open>
  \<^verbatim>\<open>os.path.dirname\<close> on POSIX: the text up to and including the last separator, with
  its trailing separators stripped unless it consists of separators only.
\<close>

definition rstrip_sep :: "string \<Rightarrow> string" where
  "rstrip_sep s = rev (dropWhile (\<lambda>c. c = sep) (rev s))"

definition dirname :: "string \<Rightarrow> string" where
  "dirname p =
     (let head = rev (dropWhile (\<lambda>c. c \<noteq> sep) (rev p))
      in if head \<noteq> [] \<and> head \<noteq> replicate (length head) sep then rstrip_sep head else head)"

lemma length_rstrip_sep: "length (rstrip_sep s) \<le> length s"
  using length_dropWhile_le [of "\<lambda>c. c = sep" "rev s"] by (simp add: rstrip_sep_def)

lemma rstrip_sep_same: "length (rstrip_sep s) = length s \<Longrightarrow> rstrip_sep s = s"
proof -
  assume "length (rstrip_sep s) = length s"
  then have "length (dropWhile (\<lambda>c. c = sep) (rev s)) = length (rev s)"
    by (simp add: rstrip_sep_def)
  then have "dropWhile (\<lambda>c. c = sep) (rev s) = rev s"
    by (metis append_eq_conv_conj append_self_conv2 length_0_conv length_append
        add_right_cancel takeWhile_dropWhile_id)
  then show ?thesis by (simp add: rstrip_sep_def)
qed

lemma dropWhile_same: "length (dropWhile P xs) = length xs \<Longrightarrow> dropWhile P xs = xs"
  using length_dropWhile_le [of P "tl xs"] by (cases xs) (auto split: if_splits)

lemma length_dirname: "length (dirname p) \<le> length p"
proof -
  have "length (rev (dropWhile (\<lambda>c. c \<noteq> sep) (rev p))) \<le> length p"
    using length_dropWhile_le [of "\<lambda>c. c \<noteq> sep" "rev p"] by simp
  then show ?thesis
    using length_rstrip_sep [of "rev (dropWhile (\<lambda>c. c \<noteq> sep) (rev p))"]
    by (simp add: dirname_def Let_def)
qed

lemma dirname_same: "length (dirname p) = length p \<Longrightarrow> dirname p = p"
proof -
  assume eq: "length (dirname p) = length p"
  define head where "head = rev (dropWhile (\<lambda>c. c \<noteq> sep) (rev p))"
  have le: "length head \<le> length p"
    using length_dropWhile_le [of "\<lambda>c. c \<noteq> sep" "rev p"] by (simp add: head_def)
  have d: "dirname p = (if head \<noteq> [] \<and> head \<noteq> replicate (length head) sep
                        then rstrip_sep head else head)"
    by (simp add: dirname_def head_def Let_def)
  have "length (dirname p) \<le> length head"
    using length_rstrip_sep [of head] by (simp add: d)
  with eq le have hl: "length head = length p" by simp
  then have "length (dropWhile (\<lambda>c. c \<noteq> sep) (rev p)) = length (rev p)"
    by (simp add: head_def)
  then have "dropWhile (\<lambda>c. c \<noteq> sep) (rev p) = rev p"
    by (rule dropWhile_same)
  then have hp: "head = p" by (simp add: head_def)
  show ?thesis
  proof (cases "head \<noteq> [] \<and> head \<noteq> replicate (length head) sep")
    case True
    then have "dirname p = rstrip_sep head" by (simp add: d)
    with eq hl have "length (rstrip_sep head) = length head" by simp
    then have "rstrip_sep head = head" by (rule rstrip_sep_same)
    with True hp show ?thesis by (simp add: d)
  next
    case False
    with hp show ?thesis by (auto simp: d)
  qed
qed

lemma dirname_shorter: "dirname p \<noteq> p \<Longrightarrow> length (dirname p) < length p"
  using length_dirname [of p] dirname_same [of p] by (cases "length (dirname p) = length p") auto

section \<open>The ancestor walk of the manifest-based finders\<close>

text \<open>
  \<^verbatim>\<open>ReqsBaseFinder._get_parents\<close>: the generator's \<^verbatim>\<open>while path != prev\<close> loop, with the
  yielded paths collected in order. The loop variables are \<open>path\<close> and \<open>prev\<close>.
\<close>

function get_parents_loop :: "string \<Rightarrow> string \<Rightarrow> string list" where
  "get_parents_loop path prev =
     (if path \<noteq> prev then path # get_parents_loop (dirname path) path else [])"
  by pat_completeness auto
termination
proof (relation "measure (\<lambda>(path, prev). length path + (if path = prev then 0 else 1))")
  show "wf (measure (\<lambda>(path, prev). length path + (if path = prev then 0 else 1)))"
    by simp
next
  fix path prev :: string
  assume "path \<noteq> prev"
  then show "((dirname path, path), (path, prev))
      \<in> measure (\<lambda>(path, prev). length path + (if path = prev then 0 else 1))"
    using dirname_shorter [of path] by auto
qed

declare get_parents_loop.simps [simp del]

definition get_parents :: "string \<Rightarrow> string list" where
  "get_parents path = get_parents_loop path []"

section \<open>String operations of the Python library\<close>

text \<open>\<^verbatim>\<open>s.split(d)\<close> for a one-character separator: never empty, \<^verbatim>\<open>''.split('.') == ['']\<close>.\<close>

fun split_on :: "char \<Rightarrow> string \<Rightarrow> string list" where
  "split_on d [] = [[]]"
| "split_on d (c # cs) =
     (if c = d then [] # split_on d cs
      else (case split_on d cs of [] \<Rightarrow> [[c]] | w # ws \<Rightarrow> (c # w) # ws))"

text \<open>\<^verbatim>\<open>d.join(ws)\<close> for a one-character separator.\<close>

fun join_with :: "char \<Rightarrow> string list \<Rightarrow> string" where
  "join_with d [] = []"
| "join_with d [w] = w"
| "join_with d (w # v # ws) = w @ d # join_with d (v # ws)"

text \<open>The first component of \<^verbatim>\<open>s.partition(d)\<close>: the text before the first \<open>d\<close>, or all of \<open>s\<close>.\<close>

definition partition_head :: "char \<Rightarrow> string \<Rightarrow> string" where
  "partition_head d s = takeWhile (\<lambda>c. c \<noteq> d) s"

text \<open>The third component of \<^verbatim>\<open>s.partition(d)\<close>: the text after the first \<open>d\<close>, or empty.\<close>

definition partition_tail :: "char \<Rightarrow> string \<Rightarrow> string" where
  "partition_tail d s = tl (dropWhile (\<lambda>c. c \<noteq> d) s)"

text \<open>\<^verbatim>\<open>s.replace(old, new)\<close> for a one-character \<open>old\<close>.\<close>

definition replace_char :: "char \<Rightarrow> string \<Rightarrow> string \<Rightarrow> string" where
  "replace_char old new s = concat (map (\<lambda>c. if c = old then new else [c]) s)"

text \<open>
  \<^verbatim>\<open>str.lower\<close> on the code points below 256: the upper-case letters are A to Z,
  U+00C0 to U+00D6 and U+00D8 to U+00DE, each 32 below its lower-case letter.
\<close>

definition char_lower :: "char \<Rightarrow> char" where
  "char_lower c =
     (let n = of_char c :: nat
      in if (65 \<le> n \<and> n \<le> 90) \<or> (192 \<le> n \<and> n \<le> 214) \<or> (216 \<le> n \<and> n \<le> 222)
         then char_of (n + 32) else c)"

definition lower :: "string \<Rightarrow> string" where
  "lower s = map char_lower s"

text \<open>\<^verbatim>\<open>str.strip()\<close>: the white space of the code points below 256 removed at both ends.\<close>

definition is_space :: "char \<Rightarrow> bool" where
  "is_space c = (of_char c \<in> {9, 10, 11, 12, 13, 28, 29, 30, 31, 32, 133, 160 :: nat})"

definition strip :: "string \<Rightarrow> string" where
  "strip s = rev (dropWhile is_space (rev (dropWhile is_space s)))"

text \<open>\<^verbatim>\<open>os.path.join(a, b)\<close> on POSIX.\<close>

definition os_path_join :: "string \<Rightarrow> string \<Rightarrow> string" where
  "os_path_join a b =
     (if startswith b [sep] then b
      else if a = [] \<or> endswith a [sep] then a @ b
      else a @ [sep] @ b)"

text \<open>\<^verbatim>\<open>os.path.normpath\<close> on POSIX; \<open>normpath_step\<close> is the body of its loop over the components.\<close>

definition normpath_step :: "nat \<Rightarrow> string list \<Rightarrow> string \<Rightarrow> string list" where
  "normpath_step initial_slashes new_comps component =
     (if component = [] \<or> component = ''.'' then new_comps
      else if component \<noteq> ''..'' \<or> (initial_slashes = 0 \<and> new_comps = [])
              \<or> (new_comps \<noteq> [] \<and> last new_comps = ''..'')
      then new_comps @ [component]
      else if new_comps \<noteq> [] then butlast new_comps
      else new_comps)"

definition normpath :: "string \<Rightarrow> string" where
  "normpath path =
     (if path = [] then ''.''
      else
        let initial_slashes =
              (if startswith path ''/''
               then (if startswith path ''//'' \<and> \<not> startswith path ''///'' then 2 else 1)
               else 0 :: nat);
            comps = foldl (normpath_step initial_slashes) [] (split_on sep path);
            joined = replicate initial_slashes sep @ join_with sep comps
        in if joined = [] then ''.'' else joined)"

section \<open>The environment of the finders\<close>

text \<open>
  What the module reads from outside itself: the file system, the interpreter, and the
  optional libraries that its guarded imports bind to \<^verbatim>\<open>None\<close> when they are missing.
  \<^item> \<open>listdir\<close>, \<open>isdir\<close>, \<open>isfile\<close>, \<open>getcwd\<close>, \<open>glob\<close>: \<^verbatim>\<open>os\<close> and \<^verbatim>\<open>glob\<close>;
  \<^item> \<open>exists_case_sensitive\<close>: the helper of \<^verbatim>\<open>isort.utils\<close>;
  \<^item> \<open>sys_path\<close>, \<open>environ_VIRTUAL_ENV\<close>, \<open>stdlib_path\<close>, \<open>EXT_SUFFIX\<close>: \<^verbatim>\<open>sys\<close>,
    \<^verbatim>\<open>os.environ\<close> and \<^verbatim>\<open>sysconfig\<close>;
  \<^item> \<open>pipreqs_mapping\<close>: \<open>None\<close> when \<^verbatim>\<open>pipreqs\<close> is not installed, else the outcome of
    opening its mapping file and reading its lines;
  \<^item> \<open>parse_requirements\<close>: \<open>None\<close> when pip's parser is not installed, else the names
    (\<open>None\<close> for an unnamed requirement) it reads from a requirements file;
  \<^item> \<open>Pipfile_load\<close>: \<open>None\<close> when \<^verbatim>\<open>requirementslib\<close> is not installed, else the
    package names of the Pipfile of a directory.
\<close>

record env =
  listdir :: "string \<Rightarrow> exn + string list"
  isdir :: "string \<Rightarrow> bool"
  isfile :: "string \<Rightarrow> bool"
  getcwd :: string
  glob :: "string \<Rightarrow> string list"
  exists_case_sensitive :: "string \<Rightarrow> bool"
  sys_path :: "string list"
  environ_VIRTUAL_ENV :: "string option"
  stdlib_path :: string
  EXT_SUFFIX :: "string option"
  pipreqs_mapping :: "(exn + string list) option"
  parse_requirements :: "(string \<Rightarrow> exn + string option list) option"
  Pipfile_load :: "(string \<Rightarrow> exn + string list) option"

text \<open>\<^verbatim>\<open>os.path.abspath\<close> on POSIX.\<close>

definition abspath :: "env \<Rightarrow> string \<Rightarrow> string" where
  "abspath e path =
     normpath (if startswith path [sep] then path else os_path_join (getcwd e) path)"

text \<open>
  The configuration mapping, with the type of each key it is read at: \<open>None\<close> is an
  absent key. \<open>cfg_known\<close> holds the keys \<^verbatim>\<open>known_<section>\<close>, looked up by the whole key.
\<close>

record config =
  cfg_forced_separate :: "string list option"
  cfg_known :: "string \<Rightarrow> string list option"
  cfg_default_section :: "string option"
  cfg_virtual_env :: "string option"
  cfg_verbose :: "bool option"

text \<open>
  Modelled from the spec: the section registry, whose class is not part of this module.
  It is an ordered sequence of section names (\<open>section_names\<close>, what iterating the registry
  gives) with named-attribute access to the sections the finders return.
\<close>

record sections =
  section_names :: "string list"
  STDLIB :: string
  THIRDPARTY :: string
  LOCALFOLDER :: string

definition KNOWN_SECTION_MAPPING :: "(string \<times> string) list" where
  "KNOWN_SECTION_MAPPING =
     [(''STDLIB'', ''STANDARD_LIBRARY''),
      (''FUTURE'', ''FUTURE_LIBRARY''),
      (''FIRSTPARTY'', ''FIRST_PARTY''),
      (''THIRDPARTY'', ''THIRD_PARTY'')]"

text \<open>
  A generator that yields \<open>xs\<close> and then either stops (\<open>None\<close>) or raises (\<open>Some e\<close>).
\<close>

type_synonym 'a gen = "'a list \<times> exn option"

definition gen_append :: "'a list \<Rightarrow> 'a gen \<Rightarrow> 'a gen" where
  "gen_append xs g = (xs @ fst g, snd g)"

section \<open>Pattern matching of the Python library\<close>

text \<open>
  \<^verbatim>\<open>fnmatch.fnmatch(name, pat)\<close> on POSIX, where it does not fold case: \<open>*\<close> matches any
  run of characters, \<open>?\<close> any one character, and the whole name must match. The bracket
  expressions of \<^verbatim>\<open>fnmatch\<close> are not part of this model: it agrees with \<^verbatim>\<open>fnmatch\<close> on the
  patterns without \<open>[\<close>, and the properties below are stated for those patterns only.
\<close>

fun glob_match :: "string \<Rightarrow> string \<Rightarrow> bool" where
  "glob_match [] s = (s = [])"
| "glob_match (p # ps) [] = (p = CHR ''*'' \<and> glob_match ps [])"
| "glob_match (p # ps) (c # cs) =
     (if p = CHR ''*'' then glob_match ps (c # cs) \<or> glob_match (p # ps) cs
      else (p = CHR ''?'' \<or> p = c) \<and> glob_match ps cs)"

definition fnmatch :: "string \<Rightarrow> string \<Rightarrow> bool" where
  "fnmatch name pat = glob_match pat name"

text \<open>
  The regular expressions that \<^verbatim>\<open>re.compile\<close> is given here: a sequence of the
  assertions \<open>^\<close> and \<open>$\<close> and of characters (\<open>.\<close> or a literal), each character taken
  once, or under \<open>*\<close>, or under \<open>?\<close>.
\<close>

datatype re_class = Literal char | Any_char

datatype re_quant = Once | Max_repeat | Optional

datatype re_item = At_beginning | At_end | Chars re_class re_quant

type_synonym regex = "re_item list"

definition newline :: char where
  "newline = CHR 0x0A"

definition backslash :: char where
  "backslash = CHR 0x5C"

definition re_quantifier :: "char \<Rightarrow> bool" where
  "re_quantifier c = (c = CHR ''*'' \<or> c = CHR ''?'')"

text \<open>
  The characters that belong to a construct of \<^verbatim>\<open>re\<close> outside this model: \<open>re_parse\<close>
  answers them with \<open>Unsupported\<close>, as it does a quantifier that follows a quantifier.
  Python compiles many such expressions; the model says nothing about them.
\<close>

definition re_unmodelled :: "char \<Rightarrow> bool" where
  "re_unmodelled c = (c \<in> set ''+()[]{}|'' \<or> c = backslash)"

definition re_item_of :: "char \<Rightarrow> re_quant \<Rightarrow> exn + re_item" where
  "re_item_of c q =
     (if c = CHR ''^'' then (if q = Once then Inr At_beginning else Inl (ReError ''nothing to repeat''))
      else if c = CHR ''$'' then (if q = Once then Inr At_end else Inl (ReError ''nothing to repeat''))
      else if c = CHR ''.'' then Inr (Chars Any_char q)
      else Inr (Chars (Literal c) q))"

definition re_cons :: "exn + re_item \<Rightarrow> exn + regex \<Rightarrow> exn + regex" where
  "re_cons item rest =
     (case item of Inl e \<Rightarrow> Inl e
      | Inr i \<Rightarrow> (case rest of Inl e \<Rightarrow> Inl e | Inr r \<Rightarrow> Inr (i # r)))"

fun re_parse :: "string \<Rightarrow> exn + regex" where
  "re_parse [] = Inr []"
| "re_parse [c] =
     (if re_quantifier c then Inl (ReError ''nothing to repeat'')
      else if re_unmodelled c then Inl (Unsupported [c])
      else re_cons (re_item_of c Once) (Inr []))"
| "re_parse (c # q # rest) =
     (if re_quantifier c then Inl (ReError ''nothing to repeat'')
      else if re_unmodelled c then Inl (Unsupported [c])
      else if re_quantifier q then
        (if (case rest of [] \<Rightarrow> False | r # _ \<Rightarrow> re_quantifier r) then Inl (Unsupported [q, hd rest])
         else re_cons (re_item_of c (if q = CHR ''*'' then Max_repeat else Optional)) (re_parse rest))
      else re_cons (re_item_of c Once) (re_parse (q # rest)))"

definition re_compile :: "string \<Rightarrow> exn + regex" where
  "re_compile regexp = re_parse regexp"

text \<open>Without flags, \<open>.\<close> matches any character but a newline.\<close>

fun class_ok :: "re_class \<Rightarrow> char \<Rightarrow> bool" where
  "class_ok (Literal l) c = (c = l)"
| "class_ok Any_char c = (c \<noteq> newline)"

text \<open>
  \<open>re_match_at r i s\<close>: the items \<open>r\<close> match some prefix of the text \<open>s\<close>, which starts at
  position \<open>i\<close> of the subject. Without flags, \<open>^\<close> holds at position 0 only and \<open>$\<close> holds
  at the end of the subject and before a newline that ends it.
\<close>

fun re_match_at :: "regex \<Rightarrow> nat \<Rightarrow> string \<Rightarrow> bool" where
  "re_match_at [] i s = True"
| "re_match_at (At_beginning # r) i s = (i = 0 \<and> re_match_at r i s)"
| "re_match_at (At_end # r) i s = ((s = [] \<or> s = [newline]) \<and> re_match_at r i s)"
| "re_match_at (Chars k Once # r) i [] = False"
| "re_match_at (Chars k Once # r) i (c # cs) = (class_ok k c \<and> re_match_at r (Suc i) cs)"
| "re_match_at (Chars k Optional # r) i [] = re_match_at r i []"
| "re_match_at (Chars k Optional # r) i (c # cs) =
     ((class_ok k c \<and> re_match_at r (Suc i) cs) \<or> re_match_at r i (c # cs))"
| "re_match_at (Chars k Max_repeat # r) i [] = re_match_at r i []"
| "re_match_at (Chars k Max_repeat # r) i (c # cs) =
     ((class_ok k c \<and> re_match_at (Chars k Max_repeat # r) (Suc i) cs) \<or> re_match_at r i (c # cs))"

text \<open>\<^verbatim>\<open>pattern.match(s)\<close>, read as a truth value: a match that starts at position 0.\<close>

definition re_match :: "regex \<Rightarrow> string \<Rightarrow> bool" where
  "re_match pattern s = re_match_at pattern 0 s"

section \<open>The finders\<close>

record base_finder =
  self_config :: config
  self_sections :: sections

definition BaseFinder_init :: "config \<Rightarrow> sections \<Rightarrow> base_finder" where
  "BaseFinder_init cfg secs = \<lparr>self_config = cfg, self_sections = secs\<rparr>"

subsection \<open>ForcedSeparateFinder\<close>

fun forced_separate_loop :: "string \<Rightarrow> string list \<Rightarrow> string option" where
  "forced_separate_loop module_name [] = None"
| "forced_separate_loop module_name (forced_separate # rest) =
     (let path_glob = (if \<not> endswith forced_separate ''*'' then forced_separate @ ''*''
                       else forced_separate)
      in if fnmatch module_name path_glob \<or> fnmatch module_name (''.'' @ path_glob)
         then Some forced_separate
         else forced_separate_loop module_name rest)"

definition ForcedSeparateFinder_find :: "base_finder \<Rightarrow> string \<Rightarrow> exn + string option" where
  "ForcedSeparateFinder_find self module_name =
     (case cfg_forced_separate (self_config self) of
        None \<Rightarrow> Inl (KeyError ''forced_separate'')
      | Some patterns \<Rightarrow> Inr (forced_separate_loop module_name patterns))"

subsection \<open>LocalFinder\<close>

definition LocalFinder_find :: "base_finder \<Rightarrow> string \<Rightarrow> exn + string option" where
  "LocalFinder_find self module_name =
     Inr (if startswith module_name ''.'' then Some (LOCALFOLDER (self_sections self)) else None)"

subsection \<open>KnownPatternFinder\<close>

record known_pattern_finder = base_finder +
  known_patterns :: "(regex \<times> string) list"

definition parse_known_pattern :: "env \<Rightarrow> string \<Rightarrow> exn + string list" where
  "parse_known_pattern e pattern =
     (if endswith pattern [sep] then
        (case listdir e pattern of
           Inl err \<Rightarrow> Inl err
         | Inr filenames \<Rightarrow> Inr (filter (\<lambda>filename. isdir e (os_path_join pattern filename)) filenames))
      else Inr [pattern])"

text \<open>The list comprehension that expands the configured entries of one section.\<close>

fun expand_known_patterns :: "env \<Rightarrow> string list \<Rightarrow> exn + string list" where
  "expand_known_patterns e [] = Inr []"
| "expand_known_patterns e (known_pattern # rest) =
     (case parse_known_pattern e known_pattern of
        Inl err \<Rightarrow> Inl err
      | Inr patterns \<Rightarrow>
          (case expand_known_patterns e rest of
             Inl err \<Rightarrow> Inl err
           | Inr others \<Rightarrow> Inr (patterns @ others)))"

definition known_regexp :: "string \<Rightarrow> string" where
  "known_regexp known_pattern =
     ''^'' @ replace_char CHR ''?'' ''.?'' (replace_char CHR ''*'' ''.*'' known_pattern) @ ''$''"

text \<open>The loop that compiles the patterns of one section and appends them.\<close>

fun compile_known_patterns ::
  "string \<Rightarrow> string list \<Rightarrow> (regex \<times> string) list \<Rightarrow> exn + (regex \<times> string) list" where
  "compile_known_patterns placement [] acc = Inr acc"
| "compile_known_patterns placement (known_pattern # rest) acc =
     (case re_compile (known_regexp known_pattern) of
        Inl err \<Rightarrow> Inl err
      | Inr compiled \<Rightarrow> compile_known_patterns placement rest (acc @ [(compiled, placement)]))"

fun known_placements_loop ::
  "env \<Rightarrow> config \<Rightarrow> string list \<Rightarrow> (regex \<times> string) list \<Rightarrow> exn + (regex \<times> string) list" where
  "known_placements_loop e cfg [] acc = Inr acc"
| "known_placements_loop e cfg (placement # rest) acc =
     (let known_placement = (case map_of KNOWN_SECTION_MAPPING placement of
                                None \<Rightarrow> placement | Some long \<Rightarrow> long);
          config_key = ''known_'' @ lower known_placement;
          configured = (case cfg_known cfg config_key of None \<Rightarrow> [] | Some l \<Rightarrow> l)
      in case expand_known_patterns e configured of
           Inl err \<Rightarrow> Inl err
         | Inr patterns \<Rightarrow>
             (case compile_known_patterns placement patterns acc of
                Inl err \<Rightarrow> Inl err
              | Inr acc' \<Rightarrow> known_placements_loop e cfg rest acc'))"

definition KnownPatternFinder_init :: "env \<Rightarrow> config \<Rightarrow> sections \<Rightarrow> exn + known_pattern_finder" where
  "KnownPatternFinder_init e cfg secs =
     (case known_placements_loop e cfg (rev (section_names secs)) [] of
        Inl err \<Rightarrow> Inl err
      | Inr patterns \<Rightarrow>
          Inr \<lparr>self_config = cfg, self_sections = secs, known_patterns = patterns\<rparr>)"

definition module_names_to_check :: "string \<Rightarrow> string list" where
  "module_names_to_check module_name =
     (let parts = split_on CHR ''.'' module_name
      in map (\<lambda>first_k. join_with CHR ''.'' (take first_k parts)) (rev [1 ..< Suc (length parts)]))"

fun scan_known_patterns :: "(regex \<times> string) list \<Rightarrow> string \<Rightarrow> string option" where
  "scan_known_patterns [] module_name_to_check = None"
| "scan_known_patterns ((pattern, placement) # rest) module_name_to_check =
     (if re_match pattern module_name_to_check then Some placement
      else scan_known_patterns rest module_name_to_check)"

fun scan_module_names :: "(regex \<times> string) list \<Rightarrow> string list \<Rightarrow> string option" where
  "scan_module_names patterns [] = None"
| "scan_module_names patterns (module_name_to_check # rest) =
     (case scan_known_patterns patterns module_name_to_check of
        Some placement \<Rightarrow> Some placement
      | None \<Rightarrow> scan_module_names patterns rest)"

definition KnownPatternFinder_find :: "known_pattern_finder \<Rightarrow> string \<Rightarrow> exn + string option" where
  "KnownPatternFinder_find self module_name =
     Inr (scan_module_names (known_patterns self) (module_names_to_check module_name))"

subsection \<open>DefaultFinder\<close>

definition DefaultFinder_find :: "base_finder \<Rightarrow> string \<Rightarrow> exn + string option" where
  "DefaultFinder_find self module_name =
     (case cfg_default_section (self_config self) of
        None \<Rightarrow> Inl (KeyError ''default_section'')
      | Some section \<Rightarrow> Inr (Some section))"

subsection \<open>PathFinder\<close>

record path_finder = base_finder +
  paths :: "string list"
  virtual_env :: "string option"
  virtual_env_src :: string
  stdlib_lib_prefix :: string
  ext_suffix :: string

text \<open>The truth value of an optional string: \<^verbatim>\<open>None\<close> and the empty string are false.\<close>

definition truthy :: "string option \<Rightarrow> bool" where
  "truthy v = (case v of None \<Rightarrow> False | Some s \<Rightarrow> s \<noteq> [])"

text \<open>\<^verbatim>\<open>for path in ...: if path not in self.paths: self.paths.append(path)\<close>\<close>

fun append_missing :: "string list \<Rightarrow> string list \<Rightarrow> string list" where
  "append_missing ps [] = ps"
| "append_missing ps (p # rest) = append_missing (if p \<notin> set ps then ps @ [p] else ps) rest"

definition PathFinder_init :: "env \<Rightarrow> config \<Rightarrow> sections \<Rightarrow> exn + path_finder" where
  "PathFinder_init e cfg secs =
     (case sys_path e of
        [] \<Rightarrow> Inl IndexError
      | _ # others \<Rightarrow>
          let paths0 = getcwd e # others;
              venv = (if truthy (cfg_virtual_env cfg) then cfg_virtual_env cfg
                      else environ_VIRTUAL_ENV e);
              venv_src = (case venv of Some v \<Rightarrow> if v \<noteq> [] then v @ ''/src/'' else [] | None \<Rightarrow> []);
              paths1 =
                (case venv of
                   None \<Rightarrow> paths0
                 | Some v \<Rightarrow>
                     if v = [] then paths0
                     else
                       let a = append_missing paths0 (glob e (v @ ''/lib/python*/site-packages''));
                           b = append_missing a (glob e (v @ ''/lib/python*/*/site-packages''))
                       in b @ filter (isdir e) (glob e (v @ ''/src/*'')));
              prefix = stdlib_path e;
              paths2 = (if prefix \<notin> set paths1 then paths1 @ [prefix] else paths1)
          in Inr \<lparr>self_config = cfg, self_sections = secs, paths = paths2, virtual_env = venv,
                  virtual_env_src = venv_src, stdlib_lib_prefix = prefix,
                  ext_suffix = (case EXT_SUFFIX e of
                                  None \<Rightarrow> ''.so''
                                | Some x \<Rightarrow> if x \<noteq> [] then x else ''.so'')\<rparr>)"

fun path_finder_loop :: "env \<Rightarrow> path_finder \<Rightarrow> string \<Rightarrow> string list \<Rightarrow> exn + string option" where
  "path_finder_loop e self module_name [] = Inr None"
| "path_finder_loop e self module_name (prefix # rest) =
     (case split_on CHR ''.'' module_name of
        [] \<Rightarrow> Inl IndexError
      | first_part # _ \<Rightarrow>
          let package_path = prefix @ ''/'' @ first_part;
              is_module = (exists_case_sensitive e (package_path @ ''.py'')
                           \<or> exists_case_sensitive e (package_path @ ''.so'')
                           \<or> exists_case_sensitive e (package_path @ ext_suffix self));
              is_package = (exists_case_sensitive e package_path \<and> isdir e package_path)
          in if is_module \<or> is_package then
               (if contains prefix ''site-packages'' then Inr (Some (THIRDPARTY (self_sections self)))
                else if contains prefix ''dist-packages'' then Inr (Some (THIRDPARTY (self_sections self)))
                else if truthy (virtual_env self) \<and> contains prefix (virtual_env_src self)
                then Inr (Some (THIRDPARTY (self_sections self)))
                else if startswith prefix (stdlib_lib_prefix self)
                then Inr (Some (STDLIB (self_sections self)))
                else (case cfg_default_section (self_config self) of
                        None \<Rightarrow> Inl (KeyError ''default_section'')
                      | Some section \<Rightarrow> Inr (Some section)))
             else path_finder_loop e self module_name rest)"

definition PathFinder_find :: "env \<Rightarrow> path_finder \<Rightarrow> string \<Rightarrow> exn + string option" where
  "PathFinder_find e self module_name = path_finder_loop e self module_name (paths self)"

subsection \<open>ReqsBaseFinder\<close>

text \<open>
  \<open>self_mapping\<close> and \<open>self_names\<close> are bound by the constructor only when the class is
  enabled; \<open>self_names = None\<close> is the unbound attribute. A dictionary is an association
  list read with \<open>map_of\<close>, the newest entry of a key first.
\<close>

record reqs_finder = base_finder +
  self_path :: string
  enabled :: bool
  self_mapping :: "(string \<times> string) list option"
  self_names :: "string list option"

definition mapping_line :: "(string \<times> string) list \<Rightarrow> string \<Rightarrow> (string \<times> string) list" where
  "mapping_line mappings line =
     (let stripped = strip line;
          import_name = partition_head CHR '':'' stripped;
          pypi_name = partition_tail CHR '':'' stripped
      in (pypi_name, import_name) # mappings)"

definition load_mapping :: "env \<Rightarrow> exn + (string \<times> string) list option" where
  "load_mapping e =
     (case pipreqs_mapping e of
        None \<Rightarrow> Inr None
      | Some (Inl err) \<Rightarrow> Inl err
      | Some (Inr lines) \<Rightarrow> Inr (Some (foldl mapping_line [] lines)))"

definition normalize_name :: "(string \<times> string) list option \<Rightarrow> string \<Rightarrow> string" where
  "normalize_name mapping name =
     (let name' = (case mapping of
                     None \<Rightarrow> name
                   | Some m \<Rightarrow> if m \<noteq> [] then (case map_of m name of None \<Rightarrow> name | Some v \<Rightarrow> v)
                               else name)
      in replace_char CHR ''-'' ''_'' (lower name'))"

text \<open>\<open>get_files\<close>: the loop of \<^verbatim>\<open>_get_files\<close> over the ancestors, one directory scan each.\<close>

fun get_files_loop :: "(string \<Rightarrow> string gen) \<Rightarrow> string list \<Rightarrow> string gen" where
  "get_files_loop get_files_from_dir [] = ([], None)"
| "get_files_loop get_files_from_dir (path # rest) =
     (case get_files_from_dir path of
        (files, Some err) \<Rightarrow> (files, Some err)
      | (files, None) \<Rightarrow> gen_append files (get_files_loop get_files_from_dir rest))"

definition get_files_start :: "env \<Rightarrow> string \<Rightarrow> string" where
  "get_files_start e p = (let path = abspath e p in if isfile e path then dirname path else path)"

definition get_files :: "env \<Rightarrow> (string \<Rightarrow> string gen) \<Rightarrow> string \<Rightarrow> string gen" where
  "get_files e get_files_from_dir p =
     get_files_loop get_files_from_dir (get_parents (get_files_start e p))"

fun load_names_loop ::
  "(string \<Rightarrow> exn + string list) \<Rightarrow> (string \<times> string) list option \<Rightarrow> string list \<Rightarrow> string list
   \<Rightarrow> exn + string list" where
  "load_names_loop get_names mapping [] names = Inr names"
| "load_names_loop get_names mapping (path # rest) names =
     (case get_names path of
        Inl err \<Rightarrow> Inl err
      | Inr found \<Rightarrow> load_names_loop get_names mapping rest (names @ map (normalize_name mapping) found))"

definition load_names ::
  "env \<Rightarrow> (string \<Rightarrow> exn + string list) \<Rightarrow> (string \<Rightarrow> string gen) \<Rightarrow> (string \<times> string) list option
   \<Rightarrow> string \<Rightarrow> exn + string list" where
  "load_names e get_names get_files_from_dir mapping p =
     (case get_files e get_files_from_dir p of
        (files, stop) \<Rightarrow>
          (case load_names_loop get_names mapping files [] of
             Inl err \<Rightarrow> Inl err
           | Inr names \<Rightarrow> (case stop of Some err \<Rightarrow> Inl err | None \<Rightarrow> Inr names)))"

definition ReqsBaseFinder_init ::
  "env \<Rightarrow> bool \<Rightarrow> (string \<Rightarrow> exn + string list) \<Rightarrow> (string \<Rightarrow> string gen) \<Rightarrow> config \<Rightarrow> sections
   \<Rightarrow> string \<Rightarrow> exn + reqs_finder" where
  "ReqsBaseFinder_init e is_enabled get_names get_files_from_dir cfg secs p =
     (if is_enabled then
        (case load_mapping e of
           Inl err \<Rightarrow> Inl err
         | Inr mapping \<Rightarrow>
             (case load_names e get_names get_files_from_dir mapping p of
                Inl err \<Rightarrow> Inl err
              | Inr names \<Rightarrow>
                  Inr \<lparr>self_config = cfg, self_sections = secs, self_path = p, enabled = True,
                       self_mapping = mapping, self_names = Some names\<rparr>))
      else Inr \<lparr>self_config = cfg, self_sections = secs, self_path = p, enabled = False,
                self_mapping = None, self_names = None\<rparr>)"

definition ReqsBaseFinder_find :: "reqs_finder \<Rightarrow> string \<Rightarrow> exn + string option" where
  "ReqsBaseFinder_find self module_name =
     (if \<not> enabled self then Inr None
      else
        let module_name' = lower (partition_head CHR ''.'' module_name)
        in if module_name' = [] then Inr None
           else (case self_names self of
                   None \<Rightarrow> Inl (AttributeError ''names'')
                 | Some names \<Rightarrow>
                     if module_name' \<in> set names then Inr (Some (THIRDPARTY (self_sections self)))
                     else Inr None))"

subsection \<open>RequirementsFinder\<close>

definition exts :: "string list" where
  "exts = [''.txt'', ''.in'']"

text \<open>The two inner loops over \<open>exts\<close>: the one of the directory branch has no \<^verbatim>\<open>break\<close>.\<close>

definition yield_each_ext :: "string \<Rightarrow> string \<Rightarrow> string list" where
  "yield_each_ext path subfile_name =
     concat (map (\<lambda>ext. if endswith subfile_name ext then [os_path_join path subfile_name] else [])
                 exts)"

definition yield_first_ext :: "string \<Rightarrow> string \<Rightarrow> string list" where
  "yield_first_ext fname full_path =
     (case List.find (\<lambda>ext. endswith fname ext) exts of None \<Rightarrow> [] | Some _ \<Rightarrow> [full_path])"

fun requirements_entries :: "env \<Rightarrow> string \<Rightarrow> string list \<Rightarrow> string gen" where
  "requirements_entries e path [] = ([], None)"
| "requirements_entries e path (fname # rest) =
     (if \<not> contains fname ''requirements'' then requirements_entries e path rest
      else
        let full_path = os_path_join path fname
        in if isdir e full_path then
             (case listdir e path of
                Inl err \<Rightarrow> ([], Some err)
              | Inr subfile_names \<Rightarrow>
                  gen_append (concat (map (yield_each_ext path) subfile_names))
                             (requirements_entries e path rest))
           else if isfile e full_path then
             gen_append (yield_first_ext fname full_path) (requirements_entries e path rest)
           else requirements_entries e path rest)"

definition RequirementsFinder_get_files_from_dir :: "env \<Rightarrow> string \<Rightarrow> string gen" where
  "RequirementsFinder_get_files_from_dir e path =
     (case listdir e path of
        Inl err \<Rightarrow> ([], Some err)
      | Inr fnames \<Rightarrow> requirements_entries e path fnames)"

definition RequirementsFinder_get_names :: "env \<Rightarrow> string \<Rightarrow> exn + string list" where
  "RequirementsFinder_get_names e path =
     (case parse_requirements e of
        None \<Rightarrow> Inl (TypeError ''parse_requirements'')
      | Some parse \<Rightarrow>
          (case parse path of
             Inl err \<Rightarrow> Inl err
           | Inr reqs \<Rightarrow>
               Inr (concat (map (\<lambda>req. case req of
                                         None \<Rightarrow> []
                                       | Some name \<Rightarrow> if name \<noteq> [] then [name] else [])
                                reqs))))"

definition RequirementsFinder_init :: "env \<Rightarrow> config \<Rightarrow> sections \<Rightarrow> exn + reqs_finder" where
  "RequirementsFinder_init e cfg secs =
     ReqsBaseFinder_init e (parse_requirements e \<noteq> None) (RequirementsFinder_get_names e)
       (RequirementsFinder_get_files_from_dir e) cfg secs ''.''"

subsection \<open>PipfileFinder\<close>

definition PipfileFinder_get_files_from_dir :: "env \<Rightarrow> string \<Rightarrow> string gen" where
  "PipfileFinder_get_files_from_dir e path =
     (case listdir e path of
        Inl err \<Rightarrow> ([], Some err)
      | Inr fnames \<Rightarrow> (if ''Pipfile'' \<in> set fnames then [path] else [], None))"

definition PipfileFinder_get_names :: "env \<Rightarrow> string \<Rightarrow> exn + string list" where
  "PipfileFinder_get_names e path =
     (case Pipfile_load e of
        None \<Rightarrow> Inl (AttributeError ''load'')
      | Some load \<Rightarrow> load path)"

definition PipfileFinder_init :: "env \<Rightarrow> config \<Rightarrow> sections \<Rightarrow> exn + reqs_finder" where
  "PipfileFinder_init e cfg secs =
     ReqsBaseFinder_init e (Pipfile_load e \<noteq> None) (PipfileFinder_get_names e)
       (PipfileFinder_get_files_from_dir e) cfg secs ''.''"

section \<open>FindersManager\<close>

text \<open>
  A finder object, as the manager uses it: its \<^verbatim>\<open>find\<close> method, and its attribute
  \<^verbatim>\<open>__name__\<close> where it has one. An instance of a class has none: only the class has.
\<close>

record finder =
  finder_find :: "string \<Rightarrow> exn + string option"
  dunder_name :: "string option"

text \<open>A finder class, as the manager uses it: its \<^verbatim>\<open>__name__\<close> and its constructor.\<close>

record finder_class =
  class_name :: string
  construct :: "config \<Rightarrow> sections \<Rightarrow> exn + finder"

definition instance_of :: "('a \<Rightarrow> string \<Rightarrow> exn + string option) \<Rightarrow> exn + 'a \<Rightarrow> exn + finder" where
  "instance_of find_method built =
     (case built of
        Inl err \<Rightarrow> Inl err
      | Inr self \<Rightarrow> Inr \<lparr>finder_find = find_method self, dunder_name = None\<rparr>)"

definition ForcedSeparateFinder :: finder_class where
  "ForcedSeparateFinder =
     \<lparr>class_name = ''ForcedSeparateFinder'',
      construct = (\<lambda>cfg secs. instance_of ForcedSeparateFinder_find (Inr (BaseFinder_init cfg secs)))\<rparr>"

definition LocalFinder :: finder_class where
  "LocalFinder =
     \<lparr>class_name = ''LocalFinder'',
      construct = (\<lambda>cfg secs. instance_of LocalFinder_find (Inr (BaseFinder_init cfg secs)))\<rparr>"

definition KnownPatternFinder :: "env \<Rightarrow> finder_class" where
  "KnownPatternFinder e =
     \<lparr>class_name = ''KnownPatternFinder'',
      construct = (\<lambda>cfg secs. instance_of KnownPatternFinder_find (KnownPatternFinder_init e cfg secs))\<rparr>"

definition PathFinder :: "env \<Rightarrow> finder_class" where
  "PathFinder e =
     \<lparr>class_name = ''PathFinder'',
      construct = (\<lambda>cfg secs. instance_of (PathFinder_find e) (PathFinder_init e cfg secs))\<rparr>"

definition PipfileFinder :: "env \<Rightarrow> finder_class" where
  "PipfileFinder e =
     \<lparr>class_name = ''PipfileFinder'',
      construct = (\<lambda>cfg secs. instance_of ReqsBaseFinder_find (PipfileFinder_init e cfg secs))\<rparr>"

definition RequirementsFinder :: "env \<Rightarrow> finder_class" where
  "RequirementsFinder e =
     \<lparr>class_name = ''RequirementsFinder'',
      construct = (\<lambda>cfg secs. instance_of ReqsBaseFinder_find (RequirementsFinder_init e cfg secs))\<rparr>"

definition DefaultFinder :: finder_class where
  "DefaultFinder =
     \<lparr>class_name = ''DefaultFinder'',
      construct = (\<lambda>cfg secs. instance_of DefaultFinder_find (Inr (BaseFinder_init cfg secs)))\<rparr>"

definition default_finders_classes :: "env \<Rightarrow> finder_class list" where
  "default_finders_classes e =
     [ForcedSeparateFinder, LocalFinder, KnownPatternFinder e, PathFinder e, PipfileFinder e,
      RequirementsFinder e, DefaultFinder]"

text \<open>
  The attributes of the class \<^verbatim>\<open>FindersManager\<close> that hold a tuple of classes, by name.
  When \<^verbatim>\<open>__init__\<close> reads \<^verbatim>\<open>self.finders\<close> the instance has bound \<^verbatim>\<open>verbose\<close> only, so
  the name is looked up in the class.
\<close>

definition FindersManager_attributes :: "env \<Rightarrow> (string \<times> finder_class list) list" where
  "FindersManager_attributes e = [(''_default_finders_classes'', default_finders_classes e)]"

definition getattr_self :: "env \<Rightarrow> string \<Rightarrow> exn + finder_class list" where
  "getattr_self e name =
     (case map_of (FindersManager_attributes e) name of
        None \<Rightarrow> Inl (AttributeError name)
      | Some v \<Rightarrow> Inr v)"

record manager =
  verbose :: bool
  finders :: "finder list"

text \<open>
  The loop of \<^verbatim>\<open>__init__\<close>. What \<^verbatim>\<open>print\<close> writes is not part of the state; its
  arguments are evaluated, and \<^verbatim>\<open>finder.__name__\<close> of a class is always bound.
\<close>

fun instantiate_loop :: "config \<Rightarrow> sections \<Rightarrow> finder_class list \<Rightarrow> finder list \<Rightarrow> finder list" where
  "instantiate_loop cfg secs [] acc = acc"
| "instantiate_loop cfg secs (cls # rest) acc =
     (case construct cls cfg secs of
        Inr instance \<Rightarrow> instantiate_loop cfg secs rest (acc @ [instance])
      | Inl exception \<Rightarrow> instantiate_loop cfg secs rest acc)"

definition FindersManager_init ::
  "env \<Rightarrow> config \<Rightarrow> sections \<Rightarrow> finder_class list option \<Rightarrow> exn + manager" where
  "FindersManager_init e cfg secs finders_arg =
     (let v = (case cfg_verbose cfg of None \<Rightarrow> False | Some b \<Rightarrow> b)
      in case (case finders_arg of None \<Rightarrow> getattr_self e ''finders'' | Some given \<Rightarrow> Inr given) of
           Inl err \<Rightarrow> Inl err
         | Inr classes \<Rightarrow> Inr \<lparr>verbose = v, finders = instantiate_loop cfg secs classes []\<rparr>)"

text \<open>
  The loop of \<^verbatim>\<open>find\<close>. The local variable \<^verbatim>\<open>section\<close> is \<open>None\<close> while it is unbound
  and \<open>Some v\<close> once an assignment has bound it to \<open>v\<close>; the test after the \<^verbatim>\<open>try\<close>
  statement reads it whether or not the \<^verbatim>\<open>try\<close> body has assigned it. In the handler,
  \<^verbatim>\<open>print\<close> is reached when the manager is verbose and evaluates \<^verbatim>\<open>finder.__name__\<close>.
\<close>

fun find_loop :: "bool \<Rightarrow> finder list \<Rightarrow> string \<Rightarrow> string option option \<Rightarrow> exn + string option" where
  "find_loop v [] module_name section = Inr None"
| "find_loop v (f # rest) module_name section =
     (case finder_find f module_name of
        Inr found \<Rightarrow>
          (case found of
             Some s \<Rightarrow> Inr (Some s)
           | None \<Rightarrow> find_loop v rest module_name (Some None))
      | Inl exception \<Rightarrow>
          if v \<and> dunder_name f = None then Inl (AttributeError ''__name__'')
          else (case section of
                  None \<Rightarrow> Inl (UnboundLocalError ''section'')
                | Some (Some s) \<Rightarrow> Inr (Some s)
                | Some None \<Rightarrow> find_loop v rest module_name section))"

definition FindersManager_find :: "manager \<Rightarrow> string \<Rightarrow> exn + string option" where
  "FindersManager_find self module_name = find_loop (verbose self) (finders self) module_name None"

section \<open>Reference definitions\<close>

text \<open>Looking a name up in the mapping table, the name itself where the table has no entry.\<close>

definition mapping_get :: "(string \<times> string) list option \<Rightarrow> string \<Rightarrow> string" where
  "mapping_get mapping name =
     (case mapping of
        None \<Rightarrow> name
      | Some m \<Rightarrow> (case map_of m name of None \<Rightarrow> name | Some v \<Rightarrow> v))"


text \<open>
  The characters of a known pattern that the model of \<^verbatim>\<open>re\<close> covers: every character
  but the ones \<open>re_parse\<close> refuses and the two anchors.
\<close>

definition plain_char :: "char \<Rightarrow> bool" where
  "plain_char c = (\<not> re_unmodelled c \<and> c \<noteq> CHR ''^'' \<and> c \<noteq> CHR ''$'')"

text \<open>The item that one character of a known pattern stands for in the compiled expression.\<close>

definition known_item :: "char \<Rightarrow> re_item" where
  "known_item c =
     (if c = CHR ''*'' then Chars Any_char Max_repeat
      else if c = CHR ''?'' then Chars Any_char Optional
      else if c = CHR ''.'' then Chars Any_char Once
      else Chars (Literal c) Once)"

text \<open>
  A known pattern matches a candidate: the pattern is compiled as the constructor does,
  and the compiled expression is matched as the lookup does.
\<close>

definition known_pattern_matches :: "string \<Rightarrow> string \<Rightarrow> bool" where
  "known_pattern_matches known_pattern s =
     (case re_compile (known_regexp known_pattern) of
        Inl err \<Rightarrow> False
      | Inr compiled \<Rightarrow> re_match compiled s)"

text \<open>The text that the two replacements of the constructor put for one character.\<close>

definition wild :: "char \<Rightarrow> string" where
  "wild c = (if c = CHR ''*'' then ''.*'' else if c = CHR ''?'' then ''.?'' else [c])"

section \<open>Example inputs\<close>

text \<open>An environment with an empty file system and none of the optional libraries.\<close>

definition bare_env :: env where
  "bare_env =
     \<lparr>listdir = (\<lambda>p. Inl (OSError p)), isdir = (\<lambda>p. False), isfile = (\<lambda>p. False),
      getcwd = ''/'', glob = (\<lambda>p. []), exists_case_sensitive = (\<lambda>p. False), sys_path = [[]],
      environ_VIRTUAL_ENV = None, stdlib_path = ''/usr/lib/python3'', EXT_SUFFIX = None,
      pipreqs_mapping = None, parse_requirements = None, Pipfile_load = None\<rparr>"

text \<open>A configuration without any key.\<close>

definition empty_config :: config where
  "empty_config =
     \<lparr>cfg_forced_separate = None, cfg_known = (\<lambda>k. None), cfg_default_section = None,
      cfg_virtual_env = None, cfg_verbose = None\<rparr>"

definition default_sections :: sections where
  "default_sections =
     \<lparr>section_names = [''FUTURE'', ''STDLIB'', ''THIRDPARTY'', ''FIRSTPARTY'', ''LOCALFOLDER''],
      STDLIB = ''STDLIB'', THIRDPARTY = ''THIRDPARTY'', LOCALFOLDER = ''LOCALFOLDER''\<rparr>"

text \<open>A finder class whose constructor raises.\<close>

definition BrokenFinder :: finder_class where
  "BrokenFinder = \<lparr>class_name = ''BrokenFinder'', construct = (\<lambda>cfg secs. Inl (Raised ''broken''))\<rparr>"

text \<open>
  A project directory with a requirements file, with pip's parser installed and
  \<^verbatim>\<open>pipreqs\<close> missing.
\<close>

definition requirements_env :: env where
  "requirements_env =
     \<lparr>listdir = (\<lambda>p. if p = ''/proj'' then Inr [''requirements.txt'', ''setup.py'']
                      else if p = ''/'' then Inr [''proj''] else Inl (OSError p)),
      isdir = (\<lambda>p. p = ''/proj'' \<or> p = ''/''),
      isfile = (\<lambda>p. p = ''/proj/requirements.txt'' \<or> p = ''/proj/setup.py''),
      getcwd = ''/proj'', glob = (\<lambda>p. []), exists_case_sensitive = (\<lambda>p. False), sys_path = [[]],
      environ_VIRTUAL_ENV = None, stdlib_path = ''/usr/lib/python3'', EXT_SUFFIX = None,
      pipreqs_mapping = None,
      parse_requirements =
        Some (\<lambda>p. if p = ''/proj/requirements.txt''
                   then Inr [Some ''Django'', Some ''django-haystack'', None, Some ''Flask-RESTFul'']
                   else Inl (OSError p)),
      Pipfile_load = None\<rparr>"

text \<open>
  A project directory that holds a directory \<^verbatim>\<open>requirements\<close> with one file, and one
  other file.
\<close>

definition requirements_dir_env :: env where
  "requirements_dir_env =
     \<lparr>listdir = (\<lambda>p. if p = ''/proj'' then Inr [''requirements'', ''notes.txt'']
                      else if p = ''/proj/requirements'' then Inr [''base.txt'']
                      else Inl (OSError p)),
      isdir = (\<lambda>p. p = ''/proj'' \<or> p = ''/proj/requirements''),
      isfile = (\<lambda>p. p = ''/proj/notes.txt'' \<or> p = ''/proj/requirements/base.txt''),
      getcwd = ''/proj'', glob = (\<lambda>p. []), exists_case_sensitive = (\<lambda>p. False), sys_path = [[]],
      environ_VIRTUAL_ENV = None, stdlib_path = ''/usr/lib/python3'', EXT_SUFFIX = None,
      pipreqs_mapping = None, parse_requirements = None, Pipfile_load = None\<rparr>"

text \<open>Configurations with known patterns: one pattern, and patterns of two sections that overlap.\<close>

definition known_thirdparty_config :: config where
  "known_thirdparty_config =
     \<lparr>cfg_forced_separate = None,
      cfg_known = (\<lambda>k. if k = ''known_third_party'' then Some [''foo.bar''] else None),
      cfg_default_section = None, cfg_virtual_env = None, cfg_verbose = None\<rparr>"

definition known_overlap_config :: config where
  "known_overlap_config =
     \<lparr>cfg_forced_separate = None,
      cfg_known = (\<lambda>k. if k = ''known_third_party'' then Some [''foo.bar'', ''foo.b*'']
                        else if k = ''known_first_party'' then Some [''foo'']
                        else None),
      cfg_default_section = None, cfg_virtual_env = None, cfg_verbose = None\<rparr>"

text \<open>A configuration that asks for diagnostics and has no other key.\<close>

definition verbose_config :: config where
  "verbose_config =
     \<lparr>cfg_forced_separate = None, cfg_known = (\<lambda>k. None), cfg_default_section = None,
      cfg_virtual_env = None, cfg_verbose = Some True\<rparr>"

section \<open>Properties of the ancestor walk\<close>

lemma dirname_head: "dirname p = p \<Longrightarrow> rev (dropWhile (\<lambda>c. c \<noteq> sep) (rev p)) = p"
proof -
  assume eq: "dirname p = p"
  define head where "head = rev (dropWhile (\<lambda>c. c \<noteq> sep) (rev p))"
  have le: "length head \<le> length p"
    using length_dropWhile_le [of "\<lambda>c. c \<noteq> sep" "rev p"] by (simp add: head_def)
  have "length (dirname p) \<le> length head"
    using length_rstrip_sep [of head] by (simp add: dirname_def head_def Let_def)
  with eq le have "length (dropWhile (\<lambda>c. c \<noteq> sep) (rev p)) = length (rev p)"
    by (simp add: head_def)
  then have "dropWhile (\<lambda>c. c \<noteq> sep) (rev p) = rev p"
    by (rule dropWhile_same)
  then show ?thesis by simp
qed

lemma dirname_fixed_iff: "dirname q = q \<longleftrightarrow> q = replicate (length q) sep"
proof
  assume fx: "dirname q = q"
  show "q = replicate (length q) sep"
  proof (rule ccontr)
    assume ns: "q \<noteq> replicate (length q) sep"
    then have ne: "q \<noteq> []" by auto
    have h: "rev (dropWhile (\<lambda>c. c \<noteq> sep) (rev q)) = q" using fx by (rule dirname_head)
    then have dw: "dropWhile (\<lambda>c. c \<noteq> sep) (rev q) = rev q" by (metis rev_rev_ident)
    have "dirname q = rstrip_sep q" using ns ne h by (simp add: dirname_def Let_def)
    with fx have "rstrip_sep q = q" by simp
    then have dw2: "dropWhile (\<lambda>c. c = sep) (rev q) = rev q"
      by (metis rstrip_sep_def rev_rev_ident)
    from ne have rne: "rev q \<noteq> []" by simp
    have "\<not> (hd (rev q) \<noteq> sep)" using hd_dropWhile [of "\<lambda>c. c \<noteq> sep" "rev q"] dw rne by simp
    moreover have "\<not> (hd (rev q) = sep)" using hd_dropWhile [of "\<lambda>c. c = sep" "rev q"] dw2 rne by simp
    ultimately show False by simp
  qed
next
  assume a: "q = replicate (length q) sep"
  have "dirname (replicate (length q) sep) = replicate (length q) sep"
    by (simp add: dirname_def Let_def dropWhile_replicate)
  with a show "dirname q = q" by simp
qed

lemma get_parents_loop_iterates:
  "path \<noteq> prev \<Longrightarrow>
     \<exists>n. get_parents_loop path prev = map (\<lambda>i. (dirname ^^ i) path) [0 ..< Suc n]
        \<and> dirname ((dirname ^^ n) path) = (dirname ^^ n) path
        \<and> (\<forall>i<n. dirname ((dirname ^^ i) path) \<noteq> (dirname ^^ i) path)
        \<and> n \<le> length path"
proof (induction path prev rule: get_parents_loop.induct)
  case (1 path prev)
  show ?case
  proof (cases "dirname path = path")
    case True
    then have "get_parents_loop path prev = [path]"
      using "1.prems" get_parents_loop.simps [of path prev] get_parents_loop.simps [of path path] by simp
    with True show ?thesis by (intro exI [of _ 0]) simp
  next
    case False
    from "1.IH" [OF "1.prems"] False obtain n where
      n: "get_parents_loop (dirname path) path = map (\<lambda>i. (dirname ^^ i) (dirname path)) [0 ..< Suc n]"
         "dirname ((dirname ^^ n) (dirname path)) = (dirname ^^ n) (dirname path)"
         "\<forall>i<n. dirname ((dirname ^^ i) (dirname path)) \<noteq> (dirname ^^ i) (dirname path)"
         "n \<le> length (dirname path)"
      by auto
    have sw: "\<And>i. (dirname ^^ i) (dirname path) = (dirname ^^ Suc i) path"
      by (simp add: funpow_swap1)
    have "get_parents_loop path prev = path # get_parents_loop (dirname path) path"
      using "1.prems" get_parents_loop.simps [of path prev] by simp
    also have "\<dots> = path # map (\<lambda>i. (dirname ^^ Suc i) path) [0 ..< Suc n]"
      by (simp only: n(1) sw)
    also have "\<dots> = map (\<lambda>i. (dirname ^^ i) path) [0 ..< Suc (Suc n)]"
      by (subst map_upt_Suc [of _ "Suc n"]) simp
    finally have a: "get_parents_loop path prev = map (\<lambda>i. (dirname ^^ i) path) [0 ..< Suc (Suc n)]" .
    have b: "dirname ((dirname ^^ Suc n) path) = (dirname ^^ Suc n) path"
      using n(2) by (simp only: sw)
    have c: "\<forall>i<Suc n. dirname ((dirname ^^ i) path) \<noteq> (dirname ^^ i) path"
    proof (intro allI impI)
      fix i assume "i < Suc n"
      show "dirname ((dirname ^^ i) path) \<noteq> (dirname ^^ i) path"
      proof (cases i)
        case 0
        with False show ?thesis by simp
      next
        case (Suc j)
        with \<open>i < Suc n\<close> have "j < n" by simp
        with n(3) have "dirname ((dirname ^^ j) (dirname path)) \<noteq> (dirname ^^ j) (dirname path)" by blast
        then show ?thesis unfolding Suc by (simp add: funpow_swap1)
      qed
    qed
    have d: "Suc n \<le> length path"
      using n(4) dirname_shorter [OF False] by simp
    from a b c d show ?thesis by blast
  qed
qed

lemma get_parents_empty: "get_parents [] = []"
  by (simp add: get_parents_def get_parents_loop.simps)

text \<open>
  C10: the ancestor walk terminates for every starting path. From a non-empty start it
  yields the start and then each successive parent, up to and including the first path
  that \<open>dirname\<close> leaves unchanged and no further; such a path consists of separators only
  (a root) or is empty. The walk never yields more than one path per character of the
  start plus one, so \<^verbatim>\<open>_get_files\<close> scans finitely many directories.
\<close>

theorem get_parents_walk:
  "(path \<noteq> [] \<longrightarrow>
      (\<exists>n\<le>length path.
           get_parents path = map (\<lambda>i. (dirname ^^ i) path) [0 ..< Suc n]
         \<and> dirname ((dirname ^^ n) path) = (dirname ^^ n) path
         \<and> (\<forall>i<n. dirname ((dirname ^^ i) path) \<noteq> (dirname ^^ i) path)))
   \<and> (dirname q = q \<longleftrightarrow> q = replicate (length q) sep)
   \<and> length (get_parents path) \<le> Suc (length path)
   \<and> get_files e get_files_from_dir p =
       get_files_loop get_files_from_dir (get_parents (get_files_start e p))"
proof -
  have a: "path \<noteq> [] \<longrightarrow>
      (\<exists>n\<le>length path.
           get_parents path = map (\<lambda>i. (dirname ^^ i) path) [0 ..< Suc n]
         \<and> dirname ((dirname ^^ n) path) = (dirname ^^ n) path
         \<and> (\<forall>i<n. dirname ((dirname ^^ i) path) \<noteq> (dirname ^^ i) path))"
    using get_parents_loop_iterates [of path "[]"] unfolding get_parents_def by blast
  have c: "length (get_parents path) \<le> Suc (length path)"
  proof (cases "path = []")
    case True
    then show ?thesis by (simp add: get_parents_empty)
  next
    case False
    with a obtain n where "n \<le> length path"
      "get_parents path = map (\<lambda>i. (dirname ^^ i) path) [0 ..< Suc n]" by blast
    then show ?thesis by simp
  qed
  show ?thesis using a c dirname_fixed_iff [of q] by (simp add: get_files_def)
qed

theorem get_parents_walk_witness:
  "get_parents ''/a/b'' = [''/a/b'', ''/a'', ''/'']
   \<and> (\<exists>n\<le>length ''/a/b''.
           get_parents ''/a/b'' = map (\<lambda>i. (dirname ^^ i) ''/a/b'') [0 ..< Suc n]
         \<and> dirname ((dirname ^^ n) ''/a/b'') = (dirname ^^ n) ''/a/b''
         \<and> (\<forall>i<n. dirname ((dirname ^^ i) ''/a/b'') \<noteq> (dirname ^^ i) ''/a/b''))
   \<and> dirname ''/'' = ''/''"
proof -
  have "get_parents ''/a/b'' = [''/a/b'', ''/a'', ''/'']" by code_simp
  moreover have "dirname ''/'' = ''/''" by code_simp
  moreover have "''/a/b'' \<noteq> []" by simp
  ultimately show ?thesis
    using get_parents_walk [of "''/a/b''" "''/''" bare_env "\<lambda>d. ([], None)" "''.''"] by blast
qed

section \<open>Properties of the manager\<close>

lemma instantiate_loop_acc:
  "instantiate_loop cfg secs classes acc =
     acc @ map (\<lambda>cls. projr (construct cls cfg secs))
               (filter (\<lambda>cls. \<not> isl (construct cls cfg secs)) classes)"
  by (induction classes arbitrary: acc) (auto split: sum.splits)

text \<open>
  C1: \<^verbatim>\<open>find\<close> is meant never to raise, whichever finder fails. The code does raise when
  the lookup of the first finder raises: the handler leaves \<^verbatim>\<open>section\<close> unbound and the test
  after it reads the variable (\<^verbatim>\<open>UnboundLocalError\<close>); and when the manager is verbose
  the handler itself raises, reading \<^verbatim>\<open>__name__\<close> of an instance (\<^verbatim>\<open>AttributeError\<close>).
\<close>

theorem manager_find_raises_when_first_finder_raises:
  assumes "finder_find f module_name = Inl x"
  shows "FindersManager_find \<lparr>verbose = v, finders = f # rest\<rparr> module_name =
           Inl (if v \<and> dunder_name f = None then AttributeError ''__name__''
                else UnboundLocalError ''section'')"
  using assms by (simp add: FindersManager_find_def)

theorem manager_find_raises_when_first_finder_raises_witness:
  "FindersManager_init bare_env empty_config default_sections (Some [DefaultFinder]) =
     Inr \<lparr>verbose = False,
          finders = [\<lparr>finder_find = DefaultFinder_find (BaseFinder_init empty_config default_sections),
                      dunder_name = None\<rparr>]\<rparr>
   \<and> FindersManager_find
        \<lparr>verbose = False,
         finders = [\<lparr>finder_find = DefaultFinder_find (BaseFinder_init empty_config default_sections),
                     dunder_name = None\<rparr>]\<rparr> ''os''
      = Inl (UnboundLocalError ''section'')"
proof -
  have "DefaultFinder_find (BaseFinder_init empty_config default_sections) ''os''
          = Inl (KeyError ''default_section'')"
    by (simp add: DefaultFinder_find_def BaseFinder_init_def empty_config_def)
  then show ?thesis
    using manager_find_raises_when_first_finder_raises
      [of "\<lparr>finder_find = DefaultFinder_find (BaseFinder_init empty_config default_sections),
            dunder_name = None\<rparr>" "''os''" "KeyError ''default_section''" False "[]"]
    by (simp add: FindersManager_init_def DefaultFinder_def instance_of_def empty_config_def)
qed

text \<open>
  C2: constructing a manager without the \<^verbatim>\<open>finders\<close> argument is meant to instantiate the
  default classes in their order. The code reads \<^verbatim>\<open>self.finders\<close>, a name that neither the
  instance nor the class binds (the tuple is \<^verbatim>\<open>_default_finders_classes\<close>), so the
  construction raises \<^verbatim>\<open>AttributeError\<close> in every environment and configuration.
\<close>

theorem manager_init_without_finders_raises:
  "FindersManager_init e cfg secs None = Inl (AttributeError ''finders'')
   \<and> map class_name (default_finders_classes e) =
       [''ForcedSeparateFinder'', ''LocalFinder'', ''KnownPatternFinder'', ''PathFinder'',
        ''PipfileFinder'', ''RequirementsFinder'', ''DefaultFinder'']"
  by (simp add: FindersManager_init_def getattr_self_def FindersManager_attributes_def
      default_finders_classes_def ForcedSeparateFinder_def LocalFinder_def KnownPatternFinder_def
      PathFinder_def PipfileFinder_def RequirementsFinder_def DefaultFinder_def)

text \<open>
  C7: given a list of finder classes, the construction of a manager succeeds whichever
  constructors raise; the finder list is the instances of the constructors that
  succeeded, in their order, so a constructor after a failed one still runs; and the
  manager is the one built from the successful classes alone, so every lookup answers
  as it would without the failed classes.
\<close>

theorem manager_init_keeps_successful_constructors:
  "FindersManager_init e cfg secs (Some classes) =
     Inr \<lparr>verbose = (cfg_verbose cfg = Some True),
          finders = map (\<lambda>cls. projr (construct cls cfg secs))
                        (filter (\<lambda>cls. \<not> isl (construct cls cfg secs)) classes)\<rparr>
   \<and> FindersManager_init e cfg secs (Some classes) =
       FindersManager_init e cfg secs
         (Some (filter (\<lambda>cls. \<not> isl (construct cls cfg secs)) classes))"
  by (auto simp: FindersManager_init_def instantiate_loop_acc split: option.splits)

theorem manager_init_keeps_successful_constructors_witness:
  "FindersManager_init bare_env empty_config default_sections (Some [BrokenFinder, LocalFinder]) =
     Inr \<lparr>verbose = False,
          finders = [\<lparr>finder_find = LocalFinder_find (BaseFinder_init empty_config default_sections),
                      dunder_name = None\<rparr>]\<rparr>
   \<and> FindersManager_init bare_env empty_config default_sections (Some [BrokenFinder, LocalFinder]) =
       FindersManager_init bare_env empty_config default_sections (Some [LocalFinder])"
proof -
  have v: "cfg_verbose empty_config = None"
    by (simp add: empty_config_def)
  have b: "construct BrokenFinder empty_config default_sections = Inl (Raised ''broken'')"
    by (simp add: BrokenFinder_def)
  have l: "construct LocalFinder empty_config default_sections =
             Inr \<lparr>finder_find = LocalFinder_find (BaseFinder_init empty_config default_sections),
                  dunder_name = None\<rparr>"
    by (simp add: LocalFinder_def instance_of_def)
  have f: "filter (\<lambda>cls. \<not> isl (construct cls empty_config default_sections))
             [BrokenFinder, LocalFinder] = [LocalFinder]"
    by (simp add: b l)
  note inst = manager_init_keeps_successful_constructors
      [of bare_env empty_config default_sections "[BrokenFinder, LocalFinder]"]
  have A: "FindersManager_init bare_env empty_config default_sections
             (Some [BrokenFinder, LocalFinder]) =
           Inr \<lparr>verbose = False,
                finders = [\<lparr>finder_find = LocalFinder_find (BaseFinder_init empty_config default_sections),
                            dunder_name = None\<rparr>]\<rparr>"
    using inst [THEN conjunct1] by (simp only: f) (simp add: v l)
  have B: "FindersManager_init bare_env empty_config default_sections
             (Some [BrokenFinder, LocalFinder]) =
           FindersManager_init bare_env empty_config default_sections (Some [LocalFinder])"
    using inst [THEN conjunct2] by (simp only: f)
  show ?thesis by (rule conjI [OF A B])
qed

section \<open>Properties of DefaultFinder\<close>

lemma find_loop_after_no_answers:
  assumes "\<forall>f\<in>set before. finder_find f m = Inr None"
  shows "find_loop v (before @ rest) m sec =
           find_loop v rest m (if before = [] then sec else Some None)"
  using assms
proof (induction before arbitrary: sec)
  case Nil
  then show ?case by simp
next
  case (Cons f before)
  then have f: "finder_find f m = Inr None" and r: "\<forall>g\<in>set before. finder_find g m = Inr None"
    by simp_all
  have "find_loop v ((f # before) @ rest) m sec = find_loop v (before @ rest) m (Some None)"
    using f by simp
  also have "\<dots> = find_loop v rest m (if before = [] then Some None else Some None)"
    by (rule Cons.IH [OF r])
  finally show ?case by simp
qed

text \<open>
  C9: the lookup of \<^verbatim>\<open>DefaultFinder\<close> is meant never to fail for the caller: without the
  key \<^verbatim>\<open>default_section\<close> it raises \<^verbatim>\<open>KeyError\<close>, which the manager is to absorb as no
  answer. The manager does so only when it is not verbose and an earlier finder has
  answered nothing. When \<^verbatim>\<open>DefaultFinder\<close> is the first finder consulted the manager
  raises \<^verbatim>\<open>UnboundLocalError\<close>, and a verbose manager raises \<^verbatim>\<open>AttributeError\<close> from its
  handler: the defect of C1.
\<close>

theorem default_finder_failure_reaches_caller:
  assumes "cfg_default_section cfg = None"
    and "\<forall>f\<in>set before. finder_find f module_name = Inr None"
  shows "FindersManager_find
           \<lparr>verbose = v,
            finders = before @ [\<lparr>finder_find = DefaultFinder_find (BaseFinder_init cfg secs),
                                 dunder_name = None\<rparr>]\<rparr> module_name =
         (if v then Inl (AttributeError ''__name__'')
          else if before = [] then Inl (UnboundLocalError ''section'')
          else Inr None)
       \<and> construct DefaultFinder cfg secs =
           Inr \<lparr>finder_find = DefaultFinder_find (BaseFinder_init cfg secs), dunder_name = None\<rparr>
       \<and> DefaultFinder_find (BaseFinder_init cfg secs) module_name = Inl (KeyError ''default_section'')"
proof -
  let ?d = "\<lparr>finder_find = DefaultFinder_find (BaseFinder_init cfg secs), dunder_name = None\<rparr>"
  have k: "DefaultFinder_find (BaseFinder_init cfg secs) module_name = Inl (KeyError ''default_section'')"
    using assms(1) by (simp add: DefaultFinder_find_def BaseFinder_init_def)
  have c: "construct DefaultFinder cfg secs = Inr ?d"
    by (simp add: DefaultFinder_def instance_of_def)
  have "FindersManager_find \<lparr>verbose = v, finders = before @ [?d]\<rparr> module_name =
          find_loop v [?d] module_name (if before = [] then None else Some None)"
    using find_loop_after_no_answers [OF assms(2), of v "[?d]" None]
    by (simp add: FindersManager_find_def)
  also have "\<dots> = (if v then Inl (AttributeError ''__name__'')
                     else if before = [] then Inl (UnboundLocalError ''section'')
                     else Inr None)"
    using k by simp
  finally show ?thesis using c k by simp
qed

theorem default_finder_failure_reaches_caller_witness:
  "FindersManager_init bare_env verbose_config default_sections (Some [LocalFinder, DefaultFinder]) =
     Inr \<lparr>verbose = True,
          finders = [\<lparr>finder_find = LocalFinder_find (BaseFinder_init verbose_config default_sections),
                      dunder_name = None\<rparr>,
                     \<lparr>finder_find = DefaultFinder_find (BaseFinder_init verbose_config default_sections),
                      dunder_name = None\<rparr>]\<rparr>
   \<and> FindersManager_find
        \<lparr>verbose = True,
         finders = [\<lparr>finder_find = LocalFinder_find (BaseFinder_init verbose_config default_sections),
                     dunder_name = None\<rparr>,
                    \<lparr>finder_find = DefaultFinder_find (BaseFinder_init verbose_config default_sections),
                     dunder_name = None\<rparr>]\<rparr> ''os''
      = Inl (AttributeError ''__name__'')
   \<and> FindersManager_find
        \<lparr>verbose = False,
         finders = [\<lparr>finder_find = LocalFinder_find (BaseFinder_init verbose_config default_sections),
                     dunder_name = None\<rparr>,
                    \<lparr>finder_find = DefaultFinder_find (BaseFinder_init verbose_config default_sections),
                     dunder_name = None\<rparr>]\<rparr> ''os''
      = Inr None"
proof -
  let ?l = "\<lparr>finder_find = LocalFinder_find (BaseFinder_init verbose_config default_sections),
             dunder_name = None\<rparr>"
  let ?d = "\<lparr>finder_find = DefaultFinder_find (BaseFinder_init verbose_config default_sections),
             dunder_name = None\<rparr>"
  have k: "cfg_default_section verbose_config = None"
    by (simp add: verbose_config_def)
  have v: "cfg_verbose verbose_config = Some True"
    by (simp add: verbose_config_def)
  have s: "\<not> startswith ''os'' ''.''"
    by (simp add: startswith_def)
  have n: "\<forall>f\<in>set [?l]. finder_find f ''os'' = Inr None"
    using s by (simp add: LocalFinder_find_def)
  have cl: "construct LocalFinder verbose_config default_sections = Inr ?l"
    by (simp add: LocalFinder_def instance_of_def)
  have cd: "construct DefaultFinder verbose_config default_sections = Inr ?d"
    by (simp add: DefaultFinder_def instance_of_def)
  have A: "FindersManager_init bare_env verbose_config default_sections
             (Some [LocalFinder, DefaultFinder]) = Inr \<lparr>verbose = True, finders = [?l, ?d]\<rparr>"
    by (simp add: FindersManager_init_def v cl cd)
  have B: "FindersManager_find \<lparr>verbose = True, finders = [?l, ?d]\<rparr> ''os''
             = Inl (AttributeError ''__name__'')"
    using default_finder_failure_reaches_caller [OF k n, of True default_sections, THEN conjunct1]
    by simp
  have C: "FindersManager_find \<lparr>verbose = False, finders = [?l, ?d]\<rparr> ''os'' = Inr None"
    using default_finder_failure_reaches_caller [OF k n, of False default_sections, THEN conjunct1]
    by simp
  show ?thesis by (intro conjI A B C)
qed

section \<open>Properties of the manifest-based finders\<close>

lemma load_names_loop_eq:
  "load_names_loop get_names mapping files acc = Inr names \<Longrightarrow>
     names = acc @ map (normalize_name mapping) (concat (map (\<lambda>f. projr (get_names f)) files))"
proof (induction files arbitrary: acc)
  case Nil
  then show ?case by simp
next
  case (Cons f files)
  from Cons.prems obtain found where f: "get_names f = Inr found"
    and r: "load_names_loop get_names mapping files (acc @ map (normalize_name mapping) found) = Inr names"
    by (auto split: sum.splits)
  from Cons.IH [OF r] f show ?case by simp
qed

lemma load_names_eq:
  "load_names e get_names gffd mapping p = Inr names \<Longrightarrow>
     names = map (normalize_name mapping)
               (concat (map (\<lambda>f. projr (get_names f)) (fst (get_files e gffd p))))"
  using load_names_loop_eq [of get_names mapping "fst (get_files e gffd p)" "[]" names]
  by (auto simp: load_names_def split: prod.splits sum.splits option.splits)

lemma normalize_name_eq:
  "normalize_name mapping name = replace_char CHR ''-'' ''_'' (lower (mapping_get mapping name))"
  by (cases mapping) (auto simp: normalize_name_def mapping_get_def Let_def)

lemma reqs_find_enabled:
  "enabled self \<Longrightarrow> self_names self = Some names \<Longrightarrow>
   ReqsBaseFinder_find self m =
     Inr (if lower (partition_head CHR ''.'' m) \<noteq> [] \<and> lower (partition_head CHR ''.'' m) \<in> set names
          then Some (THIRDPARTY (self_sections self)) else None)"
  by (simp add: ReqsBaseFinder_find_def Let_def)

text \<open>
  C8: a manifest-based finder that was constructed enabled holds the names its scanner
  and extractor found, each one looked up in the mapping table (the name itself where
  the table has no entry or is missing), lower-cased, hyphens replaced by underscores;
  its lookup answers the third-party section exactly when the lower-cased first dotted
  component of the module name is non-empty and is one of these names, and no answer
  otherwise. A finder constructed disabled answers nothing. Names that the table passes
  through normalize as in the examples.
\<close>

theorem reqs_finder_find:
  assumes "ReqsBaseFinder_init e is_enabled get_names get_files_from_dir cfg secs p = Inr self"
  shows "(is_enabled \<longrightarrow>
           (\<exists>mapping. load_mapping e = Inr mapping
              \<and> self_names self =
                  Some (map (normalize_name mapping)
                         (concat (map (\<lambda>f. projr (get_names f)) (fst (get_files e get_files_from_dir p)))))
              \<and> ReqsBaseFinder_find self module_name =
                  Inr (if lower (partition_head CHR ''.'' module_name) \<noteq> []
                          \<and> lower (partition_head CHR ''.'' module_name)
                              \<in> set (map (normalize_name mapping)
                                      (concat (map (\<lambda>f. projr (get_names f))
                                                   (fst (get_files e get_files_from_dir p)))))
                       then Some (THIRDPARTY secs) else None)))
       \<and> (\<not> is_enabled \<longrightarrow> ReqsBaseFinder_find self module_name = Inr None)
       \<and> normalize_name mp name = replace_char CHR ''-'' ''_'' (lower (mapping_get mp name))
       \<and> (mapping_get mp ''Django'' = ''Django'' \<longrightarrow> normalize_name mp ''Django'' = ''django'')
       \<and> (mapping_get mp ''django-haystack'' = ''django-haystack''
            \<longrightarrow> normalize_name mp ''django-haystack'' = ''django_haystack'')
       \<and> (mapping_get mp ''Flask-RESTFul'' = ''Flask-RESTFul''
            \<longrightarrow> normalize_name mp ''Flask-RESTFul'' = ''flask_restful'')"
proof -
  have a: "is_enabled \<longrightarrow>
           (\<exists>mapping. load_mapping e = Inr mapping
              \<and> self_names self =
                  Some (map (normalize_name mapping)
                         (concat (map (\<lambda>f. projr (get_names f)) (fst (get_files e get_files_from_dir p)))))
              \<and> ReqsBaseFinder_find self module_name =
                  Inr (if lower (partition_head CHR ''.'' module_name) \<noteq> []
                          \<and> lower (partition_head CHR ''.'' module_name)
                              \<in> set (map (normalize_name mapping)
                                      (concat (map (\<lambda>f. projr (get_names f))
                                                   (fst (get_files e get_files_from_dir p)))))
                       then Some (THIRDPARTY secs) else None))"
  proof
    assume en: is_enabled
    from assms en obtain mapping names where
      m: "load_mapping e = Inr mapping" and
      n: "load_names e get_names get_files_from_dir mapping p = Inr names" and
      s: "self = \<lparr>self_config = cfg, self_sections = secs, self_path = p, enabled = True,
                  self_mapping = mapping, self_names = Some names\<rparr>"
      by (auto simp: ReqsBaseFinder_init_def split: sum.splits)
    have nm: "names = map (normalize_name mapping)
               (concat (map (\<lambda>f. projr (get_names f)) (fst (get_files e get_files_from_dir p))))"
      using n by (rule load_names_eq)
    have "ReqsBaseFinder_find self module_name =
            Inr (if lower (partition_head CHR ''.'' module_name) \<noteq> []
                    \<and> lower (partition_head CHR ''.'' module_name) \<in> set names
                 then Some (THIRDPARTY secs) else None)"
      by (simp add: s reqs_find_enabled)
    with m nm s show "\<exists>mapping. load_mapping e = Inr mapping
              \<and> self_names self =
                  Some (map (normalize_name mapping)
                         (concat (map (\<lambda>f. projr (get_names f)) (fst (get_files e get_files_from_dir p)))))
              \<and> ReqsBaseFinder_find self module_name =
                  Inr (if lower (partition_head CHR ''.'' module_name) \<noteq> []
                          \<and> lower (partition_head CHR ''.'' module_name)
                              \<in> set (map (normalize_name mapping)
                                      (concat (map (\<lambda>f. projr (get_names f))
                                                   (fst (get_files e get_files_from_dir p)))))
                       then Some (THIRDPARTY secs) else None)"
      by (intro exI [of _ mapping]) simp
  qed
  have b: "\<not> is_enabled \<longrightarrow> ReqsBaseFinder_find self module_name = Inr None"
    using assms by (auto simp: ReqsBaseFinder_init_def ReqsBaseFinder_find_def)
  have c: "normalize_name mp name = replace_char CHR ''-'' ''_'' (lower (mapping_get mp name))"
    by (rule normalize_name_eq)
  have d1: "mapping_get mp ''Django'' = ''Django'' \<longrightarrow> normalize_name mp ''Django'' = ''django''"
  proof
    assume h: "mapping_get mp ''Django'' = ''Django''"
    have "replace_char CHR ''-'' ''_'' (lower ''Django'') = ''django''" by code_simp
    with h show "normalize_name mp ''Django'' = ''django''" by (simp only: normalize_name_eq)
  qed
  have d2: "mapping_get mp ''django-haystack'' = ''django-haystack''
            \<longrightarrow> normalize_name mp ''django-haystack'' = ''django_haystack''"
  proof
    assume h: "mapping_get mp ''django-haystack'' = ''django-haystack''"
    have "replace_char CHR ''-'' ''_'' (lower ''django-haystack'') = ''django_haystack''" by code_simp
    with h show "normalize_name mp ''django-haystack'' = ''django_haystack''"
      by (simp only: normalize_name_eq)
  qed
  have d3: "mapping_get mp ''Flask-RESTFul'' = ''Flask-RESTFul''
            \<longrightarrow> normalize_name mp ''Flask-RESTFul'' = ''flask_restful''"
  proof
    assume h: "mapping_get mp ''Flask-RESTFul'' = ''Flask-RESTFul''"
    have "replace_char CHR ''-'' ''_'' (lower ''Flask-RESTFul'') = ''flask_restful''" by code_simp
    with h show "normalize_name mp ''Flask-RESTFul'' = ''flask_restful''"
      by (simp only: normalize_name_eq)
  qed
  from a b c d1 d2 d3 show ?thesis by blast
qed

theorem reqs_finder_find_witness:
  "\<exists>self. RequirementsFinder_init requirements_env empty_config default_sections = Inr self
     \<and> self_names self = Some [''django'', ''django_haystack'', ''flask_restful'']
     \<and> ReqsBaseFinder_find self ''Flask_RESTFul.fields'' = Inr (Some ''THIRDPARTY'')
     \<and> ReqsBaseFinder_find self ''os.path'' = Inr None"
proof -
  have "\<not> isl (RequirementsFinder_init requirements_env empty_config default_sections)"
    by code_simp
  then obtain self where
    i: "RequirementsFinder_init requirements_env empty_config default_sections = Inr self"
    by (cases "RequirementsFinder_init requirements_env empty_config default_sections") auto
  have en: "parse_requirements requirements_env \<noteq> None"
    by (simp add: requirements_env_def)
  have raw: "concat (map (\<lambda>f. projr (RequirementsFinder_get_names requirements_env f))
       (fst (get_files requirements_env (RequirementsFinder_get_files_from_dir requirements_env) ''.'')))
     = [''Django'', ''django-haystack'', ''Flask-RESTFul'']"
    by code_simp
  have lm: "load_mapping requirements_env = Inr None"
    by code_simp
  have nm: "normalize_name None ''Django'' = ''django''"
    "normalize_name None ''django-haystack'' = ''django_haystack''"
    "normalize_name None ''Flask-RESTFul'' = ''flask_restful''"
    by code_simp+
  have m1: "lower (partition_head CHR ''.'' ''Flask_RESTFul.fields'') = ''flask_restful''"
    by code_simp
  have m2: "lower (partition_head CHR ''.'' ''os.path'') = ''os''"
    by code_simp
  have t: "THIRDPARTY default_sections = ''THIRDPARTY''"
    by (simp add: default_sections_def)
  note init = i [unfolded RequirementsFinder_init_def]
  have a: "self_names self = Some [''django'', ''django_haystack'', ''flask_restful'']"
    using reqs_finder_find [OF init, of "''os.path''" None "''Django''"] en
    by (simp add: raw lm nm)
  have b: "ReqsBaseFinder_find self ''Flask_RESTFul.fields'' = Inr (Some ''THIRDPARTY'')"
    using reqs_finder_find [OF init, of "''Flask_RESTFul.fields''" None "''Django''"] en
    by (simp add: raw lm nm m1 t)
  have c: "ReqsBaseFinder_find self ''os.path'' = Inr None"
    using reqs_finder_find [OF init, of "''os.path''" None "''Django''"] en
    by (simp add: raw lm nm m2 t)
  from i a b c show ?thesis by blast
qed

text \<open>
  C6: a directory whose name contains \<^verbatim>\<open>requirements\<close> is meant to contribute the files
  inside it (the comment of the branch reads \<^verbatim>\<open>*requirements*/*.{txt,in}\<close>). The code lists
  the scanned directory a second time instead: here it yields the sibling
  \<^verbatim>\<open>/proj/notes.txt\<close> and never \<^verbatim>\<open>/proj/requirements/base.txt\<close>.
\<close>

theorem requirements_dir_lists_parent:
  "RequirementsFinder_get_files_from_dir requirements_dir_env ''/proj'' = ([''/proj/notes.txt''], None)
   \<and> listdir requirements_dir_env ''/proj/requirements'' = Inr [''base.txt'']
   \<and> isdir requirements_dir_env (os_path_join ''/proj'' ''requirements'')
   \<and> contains ''requirements'' ''requirements''
   \<and> \<not> contains ''notes.txt'' ''requirements''"
  by code_simp

section \<open>Properties of ForcedSeparateFinder\<close>








section \<open>Properties of KnownPatternFinder\<close>

lemma split_on_nonempty: "split_on d s \<noteq> []"
  by (induction s) (auto split: list.splits)

lemma join_with_Cons: "join_with d ((c # w) # ws) = c # join_with d (w # ws)"
  by (cases ws) simp_all

lemma join_split: "join_with d (split_on d s) = s"
proof (induction s)
  case Nil
  then show ?case by simp
next
  case (Cons c cs)
  obtain w ws where sp: "split_on d cs = w # ws"
    using split_on_nonempty [of d cs] by (cases "split_on d cs") auto
  show ?case
  proof (cases "c = d")
    case True
    with Cons sp show ?thesis by simp
  next
    case False
    with Cons sp show ?thesis by (simp add: join_with_Cons)
  qed
qed

lemma hd_split_on: "hd (split_on d s) = takeWhile (\<lambda>c. c \<noteq> d) s"
proof (induction s)
  case Nil
  then show ?case by simp
next
  case (Cons c cs)
  obtain w ws where sp: "split_on d cs = w # ws"
    using split_on_nonempty [of d cs] by (cases "split_on d cs") auto
  with Cons show ?case by auto
qed

lemma join_take_one: "xs \<noteq> [] \<Longrightarrow> join_with d (take (Suc 0) xs) = hd xs"
  by (cases xs) simp_all

lemma module_names_nth:
  assumes "i < length (split_on CHR ''.'' m)"
  shows "module_names_to_check m ! i =
           join_with CHR ''.'' (take (length (split_on CHR ''.'' m) - i) (split_on CHR ''.'' m))"
proof -
  let ?n = "length (split_on CHR ''.'' m)"
  have l: "length [1 ..< Suc ?n] = ?n" by (simp del: upt_Suc)
  have "rev [1 ..< Suc ?n] ! i = [1 ..< Suc ?n] ! (?n - Suc i)"
    using assms rev_nth [of i "[1 ..< Suc ?n]"] by (simp only: l)
  also have "\<dots> = 1 + (?n - Suc i)"
    using assms by (intro nth_upt) simp
  also have "\<dots> = ?n - i" using assms by simp
  finally have r: "rev [1 ..< Suc ?n] ! i = ?n - i" .
  have "module_names_to_check m ! i =
          (\<lambda>first_k. join_with CHR ''.'' (take first_k (split_on CHR ''.'' m))) (rev [1 ..< Suc ?n] ! i)"
  proof -
    have li: "i < length (rev [1 ..< Suc ?n])"
      using assms l by (simp only: length_rev)
    show ?thesis
      unfolding module_names_to_check_def Let_def by (rule nth_map [OF li])
  qed
  then show ?thesis by (simp only: r)
qed

lemma module_names_length:
  "length (module_names_to_check m) = length (split_on CHR ''.'' m)"
  by (simp add: module_names_to_check_def Let_def del: upt_Suc)

lemma scan_known_patterns_find:
  "scan_known_patterns kps name = map_option snd (List.find (\<lambda>(pattern, placement). re_match pattern name) kps)"
  by (induction kps) auto

lemma scan_known_patterns_None:
  "scan_known_patterns kps name = None \<longleftrightarrow> \<not> list_ex (\<lambda>(pattern, placement). re_match pattern name) kps"
  by (induction kps) (auto split: if_splits)

lemma scan_module_names_find:
  "scan_module_names kps names =
     (case List.find (\<lambda>name. list_ex (\<lambda>(pattern, placement). re_match pattern name) kps) names of
        None \<Rightarrow> None
      | Some name \<Rightarrow> map_option snd (List.find (\<lambda>(pattern, placement). re_match pattern name) kps))"
proof (induction names)
  case Nil
  then show ?case by simp
next
  case (Cons name names)
  show ?case
  proof (cases "scan_known_patterns kps name")
    case None
    then have "\<not> list_ex (\<lambda>(pattern, placement). re_match pattern name) kps"
      by (simp add: scan_known_patterns_None)
    with None Cons show ?thesis by simp
  next
    case (Some pl)
    then have "list_ex (\<lambda>(pattern, placement). re_match pattern name) kps"
      using scan_known_patterns_None [of kps name] by auto
    then have "(case List.find (\<lambda>name. list_ex (\<lambda>(pattern, placement). re_match pattern name) kps)
                    (name # names) of
        None \<Rightarrow> None
      | Some name \<Rightarrow> map_option snd (List.find (\<lambda>(pattern, placement). re_match pattern name) kps))
      = scan_known_patterns kps name"
      by (simp add: scan_known_patterns_find)
    with Some show ?thesis by simp
  qed
qed

text \<open>
  C4: the lookup of \<^verbatim>\<open>KnownPatternFinder\<close> checks the dotted prefixes of the module name
  from the whole name (the candidate at index 0) down to its first component alone (the
  last candidate), the candidate at index \<open>i\<close> being the name without its last \<open>i\<close>
  components. It answers with the first candidate that some stored pattern matches, and
  for that candidate with the section of the first stored pattern that matches it; when
  no candidate is matched it gives no answer. With the one pattern \<^verbatim>\<open>foo.bar\<close> for the
  third-party section, \<^verbatim>\<open>foo.bar.baz\<close> is third-party and \<^verbatim>\<open>foo.qux\<close> has no answer.
\<close>

theorem known_pattern_find:
  "KnownPatternFinder_find self module_name =
     Inr (case List.find (\<lambda>name. list_ex (\<lambda>(pattern, placement). re_match pattern name)
                                    (known_patterns self))
                 (module_names_to_check module_name) of
            None \<Rightarrow> None
          | Some name \<Rightarrow>
              map_option snd (List.find (\<lambda>(pattern, placement). re_match pattern name)
                                (known_patterns self)))
   \<and> length (module_names_to_check module_name) = length (split_on CHR ''.'' module_name)
   \<and> (\<forall>i<length (split_on CHR ''.'' module_name).
         module_names_to_check module_name ! i =
           join_with CHR ''.'' (take (length (split_on CHR ''.'' module_name) - i)
                                 (split_on CHR ''.'' module_name)))
   \<and> module_names_to_check module_name ! 0 = module_name
   \<and> last (module_names_to_check module_name) = partition_head CHR ''.'' module_name
   \<and> (\<exists>finder. KnownPatternFinder_init e known_thirdparty_config default_sections = Inr finder
         \<and> KnownPatternFinder_find finder ''foo.bar.baz'' = Inr (Some ''THIRDPARTY'')
         \<and> KnownPatternFinder_find finder ''foo.qux'' = Inr None)"
proof -
  let ?parts = "split_on CHR ''.'' module_name"
  have ne: "0 < length ?parts" using split_on_nonempty [of "CHR ''.''" "module_name"] by simp
  have a: "KnownPatternFinder_find self module_name =
     Inr (case List.find (\<lambda>name. list_ex (\<lambda>(pattern, placement). re_match pattern name)
                                    (known_patterns self))
                 (module_names_to_check module_name) of
            None \<Rightarrow> None
          | Some name \<Rightarrow>
              map_option snd (List.find (\<lambda>(pattern, placement). re_match pattern name)
                                (known_patterns self)))"
    by (simp add: KnownPatternFinder_find_def scan_module_names_find)
  have b: "length (module_names_to_check module_name) = length ?parts"
    by (rule module_names_length)
  have c: "\<forall>i<length ?parts.
         module_names_to_check module_name ! i =
           join_with CHR ''.'' (take (length ?parts - i) ?parts)"
    using module_names_nth by blast
  have d: "module_names_to_check module_name ! 0 = module_name"
    using module_names_nth [OF ne] by (simp add: join_split)
  have nn: "module_names_to_check module_name \<noteq> []"
    using ne b by (cases "module_names_to_check module_name") auto
  have "last (module_names_to_check module_name)
          = module_names_to_check module_name ! (length ?parts - 1)"
    using last_conv_nth [OF nn] by (simp only: b)
  also have "\<dots> = join_with CHR ''.'' (take (Suc 0) ?parts)"
    using module_names_nth [of "length ?parts - 1" "module_name"] ne by simp
  also have "\<dots> = partition_head CHR ''.'' module_name"
    using ne by (simp add: join_take_one hd_split_on partition_head_def)
  finally have f: "last (module_names_to_check module_name) = partition_head CHR ''.'' module_name" .
  have g: "\<exists>finder. KnownPatternFinder_init e known_thirdparty_config default_sections = Inr finder
         \<and> KnownPatternFinder_find finder ''foo.bar.baz'' = Inr (Some ''THIRDPARTY'')
         \<and> KnownPatternFinder_find finder ''foo.qux'' = Inr None"
  proof -
    have "\<not> isl (KnownPatternFinder_init e known_thirdparty_config default_sections)"
      by code_simp
    then obtain finder where
      i: "KnownPatternFinder_init e known_thirdparty_config default_sections = Inr finder"
      by (cases "KnownPatternFinder_init e known_thirdparty_config default_sections") auto
    have "KnownPatternFinder_find (projr (KnownPatternFinder_init e known_thirdparty_config default_sections)) ''foo.bar.baz'' = Inr (Some ''THIRDPARTY'')"
      by code_simp
    moreover have "KnownPatternFinder_find (projr (KnownPatternFinder_init e known_thirdparty_config default_sections)) ''foo.qux'' = Inr None"
      by code_simp
    ultimately show ?thesis using i by simp
  qed
  from a b c d f g show ?thesis by blast
qed


theorem known_pattern_find_witness:
  "\<exists>finder. KnownPatternFinder_init bare_env known_overlap_config default_sections = Inr finder
     \<and> map snd (known_patterns finder) = [''FIRSTPARTY'', ''THIRDPARTY'', ''THIRDPARTY'']
     \<and> module_names_to_check ''foo.bar.baz'' = [''foo.bar.baz'', ''foo.bar'', ''foo'']
     \<and> KnownPatternFinder_find finder ''foo.bar.baz'' = Inr (Some ''THIRDPARTY'')
     \<and> KnownPatternFinder_find finder ''foo.qux'' = Inr (Some ''FIRSTPARTY'')
     \<and> KnownPatternFinder_find finder ''bar.foo'' = Inr None"
proof -
  let ?r = "KnownPatternFinder_init bare_env known_overlap_config default_sections"
  let ?kps = "[([At_beginning, Chars (Literal CHR ''f'') Once, Chars (Literal CHR ''o'') Once,
                 Chars (Literal CHR ''o'') Once, At_end], ''FIRSTPARTY''),
               ([At_beginning, Chars (Literal CHR ''f'') Once, Chars (Literal CHR ''o'') Once,
                 Chars (Literal CHR ''o'') Once, Chars Any_char Once, Chars (Literal CHR ''b'') Once,
                 Chars (Literal CHR ''a'') Once, Chars (Literal CHR ''r'') Once, At_end], ''THIRDPARTY''),
               ([At_beginning, Chars (Literal CHR ''f'') Once, Chars (Literal CHR ''o'') Once,
                 Chars (Literal CHR ''o'') Once, Chars Any_char Once, Chars (Literal CHR ''b'') Once,
                 Chars Any_char Max_repeat, At_end], ''THIRDPARTY'')]"
  have "\<not> isl ?r" by code_simp
  then obtain finder where i: "?r = Inr finder" by (cases ?r) auto
  then have p: "finder = projr ?r" by simp
  have kp: "known_patterns (projr ?r) = ?kps"
    by code_simp
  have k: "map snd (known_patterns finder) = [''FIRSTPARTY'', ''THIRDPARTY'', ''THIRDPARTY'']"
    unfolding p kp by simp
  have n: "module_names_to_check ''foo.bar.baz'' = [''foo.bar.baz'', ''foo.bar'', ''foo'']"
    by code_simp
  have f1: "(case List.find (\<lambda>name. list_ex (\<lambda>(pattern, placement). re_match pattern name) ?kps)
                 (module_names_to_check ''foo.bar.baz'') of
            None \<Rightarrow> None
          | Some name \<Rightarrow>
              map_option snd (List.find (\<lambda>(pattern, placement). re_match pattern name) ?kps))
             = Some ''THIRDPARTY''"
    by code_simp
  have f2: "(case List.find (\<lambda>name. list_ex (\<lambda>(pattern, placement). re_match pattern name) ?kps)
                 (module_names_to_check ''foo.qux'') of
            None \<Rightarrow> None
          | Some name \<Rightarrow>
              map_option snd (List.find (\<lambda>(pattern, placement). re_match pattern name) ?kps))
             = Some ''FIRSTPARTY''"
    by code_simp
  have f3: "(case List.find (\<lambda>name. list_ex (\<lambda>(pattern, placement). re_match pattern name) ?kps)
                 (module_names_to_check ''bar.foo'') of
            None \<Rightarrow> None
          | Some name \<Rightarrow>
              map_option snd (List.find (\<lambda>(pattern, placement). re_match pattern name) ?kps))
             = None"
    by code_simp
  have a: "KnownPatternFinder_find finder ''foo.bar.baz'' = Inr (Some ''THIRDPARTY'')"
    using known_pattern_find [of "projr ?r" "''foo.bar.baz''" bare_env, THEN conjunct1]
    unfolding p by (simp only: kp f1)
  have b: "KnownPatternFinder_find finder ''foo.qux'' = Inr (Some ''FIRSTPARTY'')"
    using known_pattern_find [of "projr ?r" "''foo.qux''" bare_env, THEN conjunct1]
    unfolding p by (simp only: kp f2)
  have c: "KnownPatternFinder_find finder ''bar.foo'' = Inr None"
    using known_pattern_find [of "projr ?r" "''bar.foo''" bare_env, THEN conjunct1]
    unfolding p by (simp only: kp f3)
  show ?thesis by (rule exI [of _ finder]) (intro conjI i k n a b c)
qed

section \<open>Properties of the compiled known patterns\<close>

text \<open>
  C5, as the claim states it, fails: \<open>?\<close> is replaced by \<^verbatim>\<open>.?\<close>, which also matches no
  character at all, so the pattern \<^verbatim>\<open>a?\<close> matches \<^verbatim>\<open>a\<close>. Moreover \<open>*\<close> stands for
  \<^verbatim>\<open>.*\<close>, which stops at a newline, and \<open>$\<close> also holds before a final newline.
\<close>

theorem known_pattern_question_mark_optional:
  "re_compile (known_regexp ''a?'') =
     Inr [At_beginning, Chars (Literal CHR ''a'') Once, Chars Any_char Optional, At_end]
   \<and> re_match [At_beginning, Chars (Literal CHR ''a'') Once, Chars Any_char Optional, At_end] ''a''
   \<and> re_compile (known_regexp ''a*'') =
     Inr [At_beginning, Chars (Literal CHR ''a'') Once, Chars Any_char Max_repeat, At_end]
   \<and> \<not> re_match [At_beginning, Chars (Literal CHR ''a'') Once, Chars Any_char Max_repeat, At_end]
          [CHR ''a'', newline, CHR ''b'']
   \<and> re_match [At_beginning, Chars (Literal CHR ''a'') Once, Chars Any_char Max_repeat, At_end]
          [CHR ''a'', CHR ''b'', newline]"
  by code_simp

lemma replace_char_append:
  "replace_char a n (xs @ ys) = replace_char a n xs @ replace_char a n ys"
  by (simp add: replace_char_def)

lemma replace_char_Cons:
  "replace_char a n (x # xs) = (if x = a then n else [x]) @ replace_char a n xs"
  by (simp add: replace_char_def)

lemma replace_body:
  "replace_char CHR ''?'' ''.?'' (replace_char CHR ''*'' ''.*'' p) = concat (map wild p)"
proof (induction p)
  case Nil
  then show ?case by (simp add: replace_char_def)
next
  case (Cons c p)
  have "replace_char CHR ''?'' ''.?'' (replace_char CHR ''*'' ''.*'' (c # p))
          = replace_char CHR ''?'' ''.?'' (if c = CHR ''*'' then ''.*'' else [c])
            @ replace_char CHR ''?'' ''.?'' (replace_char CHR ''*'' ''.*'' p)"
    by (simp only: replace_char_Cons replace_char_append)
  also have "replace_char CHR ''?'' ''.?'' (if c = CHR ''*'' then ''.*'' else [c]) = wild c"
    by (simp add: replace_char_def wild_def)
  finally show ?case using Cons by simp
qed

lemma known_regexp_eq: "known_regexp p = CHR ''^'' # concat (map wild p) @ ''$''"
  by (simp add: known_regexp_def replace_body)

lemma plain_not_quantifier_head:
  assumes "\<forall>c\<in>set p. plain_char c" "t = [] \<or> \<not> re_quantifier (hd t)"
  shows "concat (map wild p) @ t = [] \<or> \<not> re_quantifier (hd (concat (map wild p) @ t))"
proof (cases p)
  case Nil
  with assms show ?thesis by simp
next
  case (Cons c p')
  then show ?thesis by (simp add: wild_def re_quantifier_def)
qed

lemma re_parse_dot_quantified:
  assumes "u = [] \<or> \<not> re_quantifier (hd u)" "q = CHR ''*'' \<or> q = CHR ''?''"
  shows "re_parse (CHR ''.'' # q # u) =
           re_cons (Inr (Chars Any_char (if q = CHR ''*'' then Max_repeat else Optional))) (re_parse u)"
proof -
  have a: "\<not> re_quantifier CHR ''.''" by (simp add: re_quantifier_def)
  have b: "\<not> re_unmodelled CHR ''.''" by (simp add: re_unmodelled_def backslash_def)
  have c: "re_quantifier q" using assms(2) by (auto simp: re_quantifier_def)
  have d: "\<not> (case u of [] \<Rightarrow> False | r # _ \<Rightarrow> re_quantifier r)"
    using assms(1) by (cases u) auto
  have e: "re_item_of CHR ''.'' (if q = CHR ''*'' then Max_repeat else Optional)
             = Inr (Chars Any_char (if q = CHR ''*'' then Max_repeat else Optional))"
    by (simp add: re_item_of_def)
  show ?thesis using a b c d by (simp add: e)
qed

lemma re_parse_plain:
  assumes "plain_char c" "\<not> re_quantifier c" "u = [] \<or> \<not> re_quantifier (hd u)"
  shows "re_parse (c # u) = re_cons (Inr (known_item c)) (re_parse u)"
proof -
  have um: "\<not> re_unmodelled c" using assms(1) by (simp add: plain_char_def)
  have it: "re_item_of c Once = Inr (known_item c)"
    using assms(1,2) by (auto simp: re_item_of_def known_item_def plain_char_def re_quantifier_def)
  show ?thesis
  proof (cases u)
    case Nil
    with assms um it show ?thesis by simp
  next
    case (Cons q rest)
    with assms(3) have "\<not> re_quantifier q" by simp
    with Cons assms um it show ?thesis by simp
  qed
qed

lemma re_parse_wild:
  assumes "plain_char c" "u = [] \<or> \<not> re_quantifier (hd u)"
  shows "re_parse (wild c @ u) = re_cons (Inr (known_item c)) (re_parse u)"
proof (cases "c = CHR ''*'' \<or> c = CHR ''?''")
  case True
  then have "wild c @ u = CHR ''.'' # c # u" by (auto simp: wild_def)
  moreover have "known_item c = Chars Any_char (if c = CHR ''*'' then Max_repeat else Optional)"
    using True by (auto simp: known_item_def)
  ultimately show ?thesis using re_parse_dot_quantified [OF assms(2) True] by simp
next
  case False
  then have "wild c @ u = c # u" by (simp add: wild_def)
  moreover have "\<not> re_quantifier c" using False by (simp add: re_quantifier_def)
  ultimately show ?thesis using re_parse_plain [OF assms(1) _ assms(2)] by simp
qed

lemma re_parse_body:
  assumes "\<forall>c\<in>set p. plain_char c" "re_parse t = Inr r" "t = [] \<or> \<not> re_quantifier (hd t)"
  shows "re_parse (concat (map wild p) @ t) = Inr (map known_item p @ r)"
  using assms(1)
proof (induction p)
  case Nil
  then show ?case using assms(2) by simp
next
  case (Cons c p)
  then have pl: "plain_char c" and rest: "\<forall>c\<in>set p. plain_char c" by simp_all
  have hd: "concat (map wild p) @ t = [] \<or> \<not> re_quantifier (hd (concat (map wild p) @ t))"
    using plain_not_quantifier_head [OF rest assms(3)] .
  have "re_parse (concat (map wild (c # p)) @ t) = re_parse (wild c @ (concat (map wild p) @ t))"
    by simp
  also have "\<dots> = re_cons (Inr (known_item c)) (re_parse (concat (map wild p) @ t))"
    by (rule re_parse_wild [OF pl hd])
  also have "\<dots> = Inr (map known_item (c # p) @ r)"
    using Cons.IH [OF rest] by (simp add: re_cons_def)
  finally show ?case .
qed

lemma re_compile_known:
  assumes "\<forall>c\<in>set p. plain_char c"
  shows "re_compile (known_regexp p) = Inr (At_beginning # map known_item p @ [At_end])"
proof -
  have e: "re_parse ''$'' = Inr [At_end]"
    by (simp add: re_quantifier_def re_unmodelled_def backslash_def re_item_of_def re_cons_def)
  have q: "''$'' = [] \<or> \<not> re_quantifier (hd ''$'')"
    by (simp add: re_quantifier_def)
  have body: "re_parse (concat (map wild p) @ ''$'') = Inr (map known_item p @ [At_end])"
    by (rule re_parse_body [OF assms e q])
  have hd: "concat (map wild p) @ ''$'' = [] \<or> \<not> re_quantifier (hd (concat (map wild p) @ ''$''))"
    by (rule plain_not_quantifier_head [OF assms q])
  obtain x xs where u: "concat (map wild p) @ ''$'' = x # xs"
    by (cases "concat (map wild p) @ ''$''") auto
  with hd have nq: "\<not> re_quantifier x" by simp
  have "re_parse (CHR ''^'' # x # xs) = re_cons (re_item_of CHR ''^'' Once) (re_parse (x # xs))"
    using nq by (simp add: re_quantifier_def re_unmodelled_def backslash_def)
  also have "\<dots> = Inr (At_beginning # map known_item p @ [At_end])"
    using body by (simp add: u re_item_of_def re_cons_def)
  finally show ?thesis by (simp add: re_compile_def known_regexp_eq u)
qed

lemma known_item_not_bol: "At_beginning \<notin> set (map known_item p @ [At_end])"
  by (induction p) (auto simp: known_item_def)

lemma re_match_at_pos:
  "At_beginning \<notin> set r \<Longrightarrow> re_match_at r i s = re_match_at r j s"
proof (induction r i s arbitrary: j rule: re_match_at.induct)
  case (9 k r i c cs)
  have "re_match_at (Chars k Max_repeat # r) (Suc i) cs = re_match_at (Chars k Max_repeat # r) (Suc j) cs"
    using 9 by blast
  moreover have "re_match_at r i (c # cs) = re_match_at r j (c # cs)"
    using 9 by simp
  ultimately show ?case by simp
qed (simp_all, blast+)

lemma re_match_star:
  assumes "At_beginning \<notin> set r"
  shows "re_match_at (Chars Any_char Max_repeat # r) i s \<longleftrightarrow>
           (\<exists>k\<le>length s. newline \<notin> set (take k s) \<and> re_match_at r 0 (drop k s))"
proof (induction s arbitrary: i)
  case Nil
  show ?case using re_match_at_pos [OF assms, of i "[]" 0] by simp
next
  case (Cons c cs)
  have split: "(\<exists>k\<le>length (c # cs). newline \<notin> set (take k (c # cs)) \<and> re_match_at r 0 (drop k (c # cs)))
      \<longleftrightarrow> re_match_at r 0 (c # cs)
          \<or> (c \<noteq> newline \<and> (\<exists>k\<le>length cs. newline \<notin> set (take k cs) \<and> re_match_at r 0 (drop k cs)))"
  proof
    assume "\<exists>k\<le>length (c # cs). newline \<notin> set (take k (c # cs)) \<and> re_match_at r 0 (drop k (c # cs))"
    then obtain k where k: "k \<le> length (c # cs)" "newline \<notin> set (take k (c # cs))"
      "re_match_at r 0 (drop k (c # cs))" by blast
    show "re_match_at r 0 (c # cs)
          \<or> (c \<noteq> newline \<and> (\<exists>k\<le>length cs. newline \<notin> set (take k cs) \<and> re_match_at r 0 (drop k cs)))"
    proof (cases k)
      case 0
      with k show ?thesis by simp
    next
      case (Suc j)
      with k have "j \<le> length cs" "c \<noteq> newline" "newline \<notin> set (take j cs)"
        "re_match_at r 0 (drop j cs)" by auto
      then show ?thesis by blast
    qed
  next
    assume "re_match_at r 0 (c # cs)
          \<or> (c \<noteq> newline \<and> (\<exists>k\<le>length cs. newline \<notin> set (take k cs) \<and> re_match_at r 0 (drop k cs)))"
    then show "\<exists>k\<le>length (c # cs). newline \<notin> set (take k (c # cs)) \<and> re_match_at r 0 (drop k (c # cs))"
    proof
      assume "re_match_at r 0 (c # cs)"
      then show ?thesis by (intro exI [of _ 0]) simp
    next
      assume "c \<noteq> newline \<and> (\<exists>k\<le>length cs. newline \<notin> set (take k cs) \<and> re_match_at r 0 (drop k cs))"
      then obtain k where "c \<noteq> newline" "k \<le> length cs" "newline \<notin> set (take k cs)"
        "re_match_at r 0 (drop k cs)" by blast
      then show ?thesis by (intro exI [of _ "Suc k"]) simp
    qed
  qed
  have "re_match_at (Chars Any_char Max_repeat # r) i (c # cs) \<longleftrightarrow>
          (c \<noteq> newline \<and> re_match_at (Chars Any_char Max_repeat # r) (Suc i) cs)
           \<or> re_match_at r 0 (c # cs)"
    using re_match_at_pos [OF assms, of i "c # cs" 0] by simp
  also have "\<dots> \<longleftrightarrow> (c \<noteq> newline \<and> (\<exists>k\<le>length cs. newline \<notin> set (take k cs) \<and> re_match_at r 0 (drop k cs)))
           \<or> re_match_at r 0 (c # cs)"
    by (simp only: Cons.IH)
  finally show ?case using split by blast
qed

lemma known_pattern_matches_eq:
  assumes "\<forall>c\<in>set p. plain_char c"
  shows "known_pattern_matches p s = re_match_at (map known_item p @ [At_end]) 0 s"
  by (simp add: known_pattern_matches_def re_compile_known [OF assms] re_match_def)

lemma plain_wildcards: "plain_char CHR ''*''" "plain_char CHR ''?''" "plain_char CHR ''.''"
  by (simp_all add: plain_char_def re_unmodelled_def backslash_def)

lemma compile_known_patterns_plain:
  assumes "\<forall>p\<in>set patterns. \<forall>c\<in>set p. plain_char c"
  shows "compile_known_patterns placement patterns acc =
           Inr (acc @ map (\<lambda>p. (At_beginning # map known_item p @ [At_end], placement)) patterns)"
  using assms
proof (induction patterns arbitrary: acc)
  case Nil
  then show ?case by simp
next
  case (Cons p patterns)
  then have "re_compile (known_regexp p) = Inr (At_beginning # map known_item p @ [At_end])"
    by (intro re_compile_known) simp
  with Cons show ?case by simp
qed

text \<open>
  C5, amended: every known-pattern literal made of characters the model covers is
  compiled, at the construction of \<^verbatim>\<open>KnownPatternFinder\<close>, into an expression anchored at
  both ends that must match the whole candidate, up to one final newline; in it \<open>*\<close>
  matches any run of characters other than newlines, \<open>?\<close> matches at most one such
  character (none or one), \<open>.\<close> matches exactly one such character, and every other
  character matches itself.
\<close>

theorem known_pattern_compiled:
  assumes "\<forall>c\<in>set ps. plain_char c"
  shows "re_compile (known_regexp ps) = Inr (At_beginning # map known_item ps @ [At_end])
       \<and> ((\<forall>p\<in>set patterns. \<forall>c\<in>set p. plain_char c) \<longrightarrow>
            compile_known_patterns placement patterns acc =
              Inr (acc @ map (\<lambda>p. (At_beginning # map known_item p @ [At_end], placement)) patterns))
       \<and> (known_pattern_matches [] s \<longleftrightarrow> s = [] \<or> s = [newline])
       \<and> (known_pattern_matches (CHR ''*'' # ps) s \<longleftrightarrow>
            (\<exists>k\<le>length s. newline \<notin> set (take k s) \<and> known_pattern_matches ps (drop k s)))
       \<and> (known_pattern_matches (CHR ''?'' # ps) s \<longleftrightarrow>
            known_pattern_matches ps s
            \<or> (s \<noteq> [] \<and> hd s \<noteq> newline \<and> known_pattern_matches ps (tl s)))
       \<and> (known_pattern_matches (CHR ''.'' # ps) s \<longleftrightarrow>
            s \<noteq> [] \<and> hd s \<noteq> newline \<and> known_pattern_matches ps (tl s))
       \<and> (plain_char c \<and> c \<noteq> CHR ''*'' \<and> c \<noteq> CHR ''?'' \<and> c \<noteq> CHR ''.'' \<longrightarrow>
            (known_pattern_matches (c # ps) s \<longleftrightarrow>
               s \<noteq> [] \<and> hd s = c \<and> known_pattern_matches ps (tl s)))"
proof -
  let ?r = "map known_item ps @ [At_end]"
  have nb: "At_beginning \<notin> set ?r" by (rule known_item_not_bol)
  have ps: "\<And>t. known_pattern_matches ps t = re_match_at ?r 0 t"
    by (rule known_pattern_matches_eq [OF assms])
  have cons: "\<And>x t. plain_char x \<Longrightarrow>
      known_pattern_matches (x # ps) t = re_match_at (known_item x # ?r) 0 t"
    using known_pattern_matches_eq [of "_ # ps"] assms by simp
  have a: "re_compile (known_regexp ps) = Inr (At_beginning # ?r)"
    by (rule re_compile_known [OF assms])
  have b: "known_pattern_matches [] s \<longleftrightarrow> s = [] \<or> s = [newline]"
    using known_pattern_matches_eq [of "[]" s] by simp
  have c: "known_pattern_matches (CHR ''*'' # ps) s \<longleftrightarrow>
            (\<exists>k\<le>length s. newline \<notin> set (take k s) \<and> known_pattern_matches ps (drop k s))"
    using re_match_star [OF nb, of 0 s]
    by (simp add: cons [OF plain_wildcards(1)] ps known_item_def)
  have d: "known_pattern_matches (CHR ''?'' # ps) s \<longleftrightarrow>
            known_pattern_matches ps s
            \<or> (s \<noteq> [] \<and> hd s \<noteq> newline \<and> known_pattern_matches ps (tl s))"
  proof (cases s)
    case Nil
    then show ?thesis by (simp add: cons [OF plain_wildcards(2)] ps known_item_def)
  next
    case (Cons x xs)
    then show ?thesis
      using re_match_at_pos [OF nb, of "Suc 0" xs 0]
      by (auto simp: cons [OF plain_wildcards(2)] ps known_item_def)
  qed
  have e: "known_pattern_matches (CHR ''.'' # ps) s \<longleftrightarrow>
            s \<noteq> [] \<and> hd s \<noteq> newline \<and> known_pattern_matches ps (tl s)"
  proof (cases s)
    case Nil
    then show ?thesis by (simp add: cons [OF plain_wildcards(3)] ps known_item_def)
  next
    case (Cons x xs)
    then show ?thesis
      using re_match_at_pos [OF nb, of "Suc 0" xs 0]
      by (auto simp: cons [OF plain_wildcards(3)] ps known_item_def)
  qed
  have f: "plain_char c \<and> c \<noteq> CHR ''*'' \<and> c \<noteq> CHR ''?'' \<and> c \<noteq> CHR ''.'' \<longrightarrow>
            (known_pattern_matches (c # ps) s \<longleftrightarrow>
               s \<noteq> [] \<and> hd s = c \<and> known_pattern_matches ps (tl s))"
  proof (intro impI)
    assume h: "plain_char c \<and> c \<noteq> CHR ''*'' \<and> c \<noteq> CHR ''?'' \<and> c \<noteq> CHR ''.''"
    then have pc: "plain_char c" and ki: "known_item c = Chars (Literal c) Once"
      by (simp_all add: known_item_def)
    show "known_pattern_matches (c # ps) s \<longleftrightarrow>
               s \<noteq> [] \<and> hd s = c \<and> known_pattern_matches ps (tl s)"
    proof (cases s)
      case Nil
      then show ?thesis by (simp add: cons [OF pc] ps ki)
    next
      case (Cons x xs)
      then show ?thesis
        using re_match_at_pos [OF nb, of "Suc 0" xs 0]
        by (auto simp: cons [OF pc] ps ki)
    qed
  qed
  have g: "(\<forall>p\<in>set patterns. \<forall>c\<in>set p. plain_char c) \<longrightarrow>
            compile_known_patterns placement patterns acc =
              Inr (acc @ map (\<lambda>p. (At_beginning # map known_item p @ [At_end], placement)) patterns)"
    using compile_known_patterns_plain by blast
  from a b c d e f g show ?thesis by blast
qed

theorem known_pattern_compiled_witness:
  "list_all plain_char ''b*''
   \<and> re_compile (known_regexp ''b*'') =
       Inr [At_beginning, Chars (Literal CHR ''b'') Once, Chars Any_char Max_repeat, At_end]
   \<and> known_pattern_matches ''b*'' ''bar''
   \<and> known_pattern_matches ''?b*'' ''bar''
   \<and> known_pattern_matches ''?b*'' ''xbar''
   \<and> \<not> known_pattern_matches ''?b*'' ''xxbar''"
proof -
  have h: "\<forall>c\<in>set ''b*''. plain_char c" by code_simp
  have m: "known_item CHR ''b'' = Chars (Literal CHR ''b'') Once"
    "known_item CHR ''*'' = Chars Any_char Max_repeat"
    by (simp_all add: known_item_def)
  have b1: "known_pattern_matches ''b*'' ''bar''" by code_simp
  have b2: "\<not> known_pattern_matches ''b*'' ''xbar''" by code_simp
  have b3: "\<not> known_pattern_matches ''b*'' ''xxbar''" by code_simp
  have x: "CHR ''x'' \<noteq> newline" by (simp add: newline_def)
  note inst = known_pattern_compiled [OF h]
  have a: "re_compile (known_regexp ''b*'') =
       Inr [At_beginning, Chars (Literal CHR ''b'') Once, Chars Any_char Max_repeat, At_end]"
    using inst [where patterns = "[]" and placement = "[]" and acc = "[]" and s = "[]"
        and c = "CHR ''a''", THEN conjunct1]
    by (simp add: m)
  have q: "known_pattern_matches ''?b*'' s \<longleftrightarrow>
            known_pattern_matches ''b*'' s
            \<or> (s \<noteq> [] \<and> hd s \<noteq> newline \<and> known_pattern_matches ''b*'' (tl s))" for s
    using inst [where patterns = "[]" and placement = "[]" and acc = "[]" and s = s
        and c = "CHR ''a''"]
    by blast
  have c1: "known_pattern_matches ''?b*'' ''bar''" using q [of "''bar''"] b1 by simp
  have c2: "known_pattern_matches ''?b*'' ''xbar''" using q [of "''xbar''"] b1 x by simp
  have c3: "\<not> known_pattern_matches ''?b*'' ''xxbar''" using q [of "''xxbar''"] b2 b3 by simp
  have l: "list_all plain_char ''b*''" using h by (simp only: list_all_iff)
  show ?thesis by (intro conjI l a b1 c1 c2 c3)
qed

end
